theory Spec2Isabelle
  imports Complex_Main "HOL-Library.Word" "HOL-Library.Log_Nat" "HOL-Library.Signed_Division"
begin

section \<open>Send-side bandwidth estimation\<close>

text \<open>
  A shallow embedding of \<^verbatim>\<open>modules/bitrate_controller/send_side_bandwidth_estimation.cc\<close>.
  Every method of the class becomes a function from the object's state to its new state.

  \<^item> \<^verbatim>\<open>uint32_t\<close>, \<^verbatim>\<open>uint16_t\<close> and \<^verbatim>\<open>uint8_t\<close> are \<open>32 word\<close>, \<open>16 word\<close> and
    \<open>8 word\<close>: their arithmetic wraps around, as the unsigned arithmetic of C++ does.
  \<^item> \<^verbatim>\<open>int\<close> is \<open>int\<close>. Signed overflow has no defined behaviour in C++, so the
    mathematical integers describe every execution of the code that has one.
  \<^item> \<^verbatim>\<open>double\<close> is the set of real numbers that binary64 represents, and every
    floating-point operation is the exact operation followed by rounding to the nearest
    such number, ties to even (\<open>fl\<close> below). The exponent range is not bounded in the model:
    all values this code computes lie far inside the normal range of binary64.
\<close>

subsection \<open>Binary64 arithmetic\<close>

text \<open>Rounding a real number to the nearest integer, a tie to the even neighbour.\<close>

definition round_half_even :: "real \<Rightarrow> int" where
  "round_half_even q =
     (let f = \<lfloor>q\<rfloor>; r = q - of_int f in
      if r < 1 / 2 then f else if 1 / 2 < r then f + 1 else if even f then f else f + 1)"

text \<open>The binary exponent of a positive real: \<open>2 powi expo x \<le> x < 2 powi (expo x + 1)\<close>.\<close>

definition expo :: "real \<Rightarrow> int" where
  "expo x =
     (if 1 \<le> x then bitlen \<lfloor>x\<rfloor> - 1
      else let k = bitlen \<lfloor>1 / x\<rfloor> in if x * 2 ^ nat (k - 1) = 1 then 1 - k else - k)"

text \<open>
  Rounding to binary64: a significand of 53 bits, so the spacing of the representable
  numbers around \<open>x\<close> is \<open>2 powi (expo \<bar>x\<bar> - 52)\<close>.
\<close>

definition fl :: "real \<Rightarrow> real" where
  "fl x =
     (if x = 0 then 0
      else let u = 2 powi (expo \<bar>x\<bar> - 52) in sgn x * of_int (round_half_even (\<bar>x\<bar> / u)) * u)"

definition double_add :: "real \<Rightarrow> real \<Rightarrow> real" where
  "double_add x y = fl (x + y)"

definition double_mul :: "real \<Rightarrow> real \<Rightarrow> real" where
  "double_mul x y = fl (x * y)"

definition double_div :: "real \<Rightarrow> real \<Rightarrow> real" where
  "double_div x y = fl (x / y)"

text \<open>The largest integer whose square is at most \<open>n\<close>, for \<open>n \<ge> 0\<close>.\<close>

function floor_sqrt :: "int \<Rightarrow> int" where
  "floor_sqrt n =
     (if n \<le> 0 then 0
      else let r = 2 * floor_sqrt (n div 4) in if (r + 1) * (r + 1) \<le> n then r + 1 else r)"
  by pat_completeness auto
termination
  by (relation "measure nat") auto

declare floor_sqrt.simps [simp del]

text \<open>
  \<^verbatim>\<open>std::sqrt\<close> on a positive double: the square root, rounded to binary64. The root of
  \<open>x\<close> has the binary exponent \<open>expo x div 2\<close>; its significand is found with integers,
  comparing \<open>x\<close> with the square of the midpoint between two neighbours.
\<close>

definition double_sqrt :: "real \<Rightarrow> real" where
  "double_sqrt x =
     (if x \<le> 0 then 0
      else let u = 2 powi (expo x div 2 - 52);
               z = x / (u * u);
               f = floor_sqrt \<lfloor>z\<rfloor>;
               h = (of_int f + 1 / 2) * (of_int f + 1 / 2);
               m = (if z < h then f else if h < z then f + 1 else if even f then f else f + 1)
           in of_int m * u)"

text \<open>
  Conversions. Every 32-bit integer is a binary64 number, so the conversion to
  \<^verbatim>\<open>double\<close> is exact. \<^verbatim>\<open>static_cast<uint32_t>\<close> of a double truncates towards zero;
  when the truncated value does not fit into 32 bits, C++ leaves the result open, and
  the model takes it from the parameter \<open>oor\<close> (what the platform returns out of range).
\<close>

definition double_of_uint32 :: "32 word \<Rightarrow> real" where
  "double_of_uint32 w = real (unat w)"

definition truncate_double :: "real \<Rightarrow> int" where
  "truncate_double x = (if 0 \<le> x then \<lfloor>x\<rfloor> else \<lceil>x\<rceil>)"

definition uint32_of_double :: "(real \<Rightarrow> 32 word) \<Rightarrow> real \<Rightarrow> 32 word" where
  "uint32_of_double oor x =
     (if 0 \<le> truncate_double x \<and> truncate_double x < 2 ^ 32
      then word_of_int (truncate_double x) else oor x)"

subsection \<open>Constants and the TFRC rate\<close>

definition kBweIncreaseIntervalMs :: int where
  "kBweIncreaseIntervalMs = 1000"

definition kBweDecreaseIntervalMs :: int where
  "kBweDecreaseIntervalMs = 300"

definition kLimitNumPackets :: int where
  "kLimitNumPackets = 20"

definition kAvgPacketSizeBytes :: int where
  "kAvgPacketSizeBytes = 1000"

text \<open>
  \<^verbatim>\<open>CalcTfrcBps(uint16_t rtt, uint8_t loss)\<close>: the rate of RFC 3448, section 3.1, in
  bits per second, computed in doubles in the order in which C++ evaluates the expression.
\<close>

definition CalcTfrcBps :: "(real \<Rightarrow> 32 word) \<Rightarrow> 16 word \<Rightarrow> 8 word \<Rightarrow> 32 word" where
  "CalcTfrcBps oor rtt loss =
     (if rtt = 0 \<or> loss = 0 then 0
      else let R = double_div (real (unat rtt)) 1000;
               b = (1 :: int);
               t_RTO = double_mul 4 R;
               p = double_div (real (unat loss)) 255;
               s = real_of_int kAvgPacketSizeBytes;
               X = double_div s
                     (double_add
                        (double_mul R (double_sqrt (double_div (double_mul (of_int (2 * b)) p) 3)))
                        (double_mul t_RTO
                           (double_mul
                              (double_mul
                                 (double_mul 3
                                    (double_sqrt (double_div (double_mul (of_int (3 * b)) p) 8)))
                                 p)
                              (double_add 1 (double_mul (double_mul 32 p) p)))))
           in uint32_of_double oor (double_mul X 8))"

subsection \<open>The estimator's state\<close>

text \<open>
  The fields of the class, in the order of the constructor's initialiser list. The class
  declaration is not part of the sources at hand, so the width of
  \<open>last_round_trip_time\<close> is left open: the field has the type \<open>'rtt\<close>, which every
  function below takes to be a word of some length \<open>'r\<close>. The code stores a
  \<^verbatim>\<open>uint32_t\<close> into it, reads it back into a \<^verbatim>\<open>uint32_t\<close> and passes it where a
  \<^verbatim>\<open>uint16_t\<close> is expected; each of these is a conversion between words (\<open>ucast\<close>).
  The two accumulators hold \<^verbatim>\<open>int\<close> values.

  The last field is not a member of the class: it records the warnings handed to
  \<^verbatim>\<open>WEBRTC_TRACE\<close>, oldest first, each with its two numeric arguments.
\<close>

record 'rtt SendSideBandwidthEstimation =
  accumulate_lost_packets_Q8 :: int
  accumulate_expected_packets :: int
  bitrate :: "32 word"
  min_bitrate_configured :: "32 word"
  max_bitrate_configured :: "32 word"
  last_fraction_loss :: "8 word"
  last_round_trip_time :: 'rtt
  bwe_incoming :: "32 word"
  time_last_increase :: "32 word"
  time_last_decrease :: "32 word"
  warnings :: "(32 word \<times> 32 word) list"

type_synonym 'r estimation = "'r word SendSideBandwidthEstimation"

definition Constructor :: "('r::len) estimation" where
  "Constructor =
     \<lparr>accumulate_lost_packets_Q8 = 0,
      accumulate_expected_packets = 0,
      bitrate = 0,
      min_bitrate_configured = 0,
      max_bitrate_configured = 0,
      last_fraction_loss = 0,
      last_round_trip_time = 0,
      bwe_incoming = 0,
      time_last_increase = 0,
      time_last_decrease = 0,
      warnings = []\<rparr>"

subsection \<open>The methods\<close>

definition SetSendBitrate :: "32 word \<Rightarrow> ('r::len) estimation \<Rightarrow> 'r estimation" where
  "SetSendBitrate b s = s\<lparr>bitrate := b\<rparr>"

definition SetMinMaxBitrate ::
  "32 word \<Rightarrow> 32 word \<Rightarrow> ('r::len) estimation \<Rightarrow> 'r estimation" where
  "SetMinMaxBitrate min_bitrate max_bitrate s =
     s\<lparr>min_bitrate_configured := min_bitrate, max_bitrate_configured := max_bitrate\<rparr>"

definition SetMinBitrate :: "32 word \<Rightarrow> ('r::len) estimation \<Rightarrow> 'r estimation" where
  "SetMinBitrate min_bitrate s = s\<lparr>min_bitrate_configured := min_bitrate\<rparr>"


definition CapBitrateToThresholds :: "('r::len) estimation \<Rightarrow> 'r estimation" where
  "CapBitrateToThresholds s =
     (let s1 = (if 0 < bwe_incoming s \<and> bwe_incoming s < bitrate s
                then s\<lparr>bitrate := bwe_incoming s\<rparr> else s);
          s2 = (if max_bitrate_configured s1 < bitrate s1
                then s1\<lparr>bitrate := max_bitrate_configured s1\<rparr> else s1)
      in if bitrate s2 < min_bitrate_configured s2
         then s2\<lparr>warnings :=
                    warnings s2 @ [(min_bitrate_configured s2 div 1000, bitrate s2 div 1000)],
                  bitrate := min_bitrate_configured s2\<rparr>
         else s2)"

definition UpdateReceiverEstimate :: "32 word \<Rightarrow> ('r::len) estimation \<Rightarrow> 'r estimation" where
  "UpdateReceiverEstimate bandwidth s = CapBitrateToThresholds (s\<lparr>bwe_incoming := bandwidth\<rparr>)"

text \<open>
  The two updates of the bit rate in \<^verbatim>\<open>UpdateEstimate\<close>, as functions of the values
  they read. The increase is
  \<^verbatim>\<open>bitrate_ = static_cast<uint32_t>(bitrate_ * 1.08 + 0.5); bitrate_ += 1000;\<close>
  where \<^verbatim>\<open>1.08\<close> is the double nearest to 108/100 and the final addition is one of
  \<^verbatim>\<open>uint32_t\<close>. The reduction is
  \<^verbatim>\<open>static_cast<uint32_t>((bitrate_ * static_cast<double>(512 - last_fraction_loss_)) / 512.0)\<close>
  where the difference is computed on \<^verbatim>\<open>int\<close>.
\<close>

definition increase_rate :: "(real \<Rightarrow> 32 word) \<Rightarrow> 32 word \<Rightarrow> 32 word" where
  "increase_rate oor b =
     uint32_of_double oor (double_add (double_mul (double_of_uint32 b) (fl (108 / 100))) (1 / 2))
     + 1000"

definition reduce_rate :: "(real \<Rightarrow> 32 word) \<Rightarrow> 32 word \<Rightarrow> 8 word \<Rightarrow> 32 word" where
  "reduce_rate oor b loss =
     uint32_of_double oor
       (double_div (double_mul (double_of_uint32 b) (real_of_int (512 - uint loss))) 512)"

text \<open>
  \<^verbatim>\<open>UpdateEstimate\<close>. The three branches on the loss are those of the source. In the
  last one, \<^verbatim>\<open>kBweDecreaseIntervalMs + last_round_trip_time_\<close> is converted to
  \<^verbatim>\<open>uint32_t\<close>, which is the sum of the two as 32-bit words whatever the width of the
  field.
\<close>

definition UpdateEstimate ::
  "(real \<Rightarrow> 32 word) \<Rightarrow> 32 word \<Rightarrow> ('r::len) estimation \<Rightarrow> 'r estimation" where
  "UpdateEstimate oor now_ms s =
     CapBitrateToThresholds
       (if last_fraction_loss s \<le> 5 then
          (if word_of_int kBweIncreaseIntervalMs \<le> now_ms - time_last_increase s
           then s\<lparr>time_last_increase := now_ms, bitrate := increase_rate oor (bitrate s)\<rparr>
           else s)
        else if last_fraction_loss s \<le> 26 then s
        else
          (if word_of_int kBweDecreaseIntervalMs + ucast (last_round_trip_time s)
                \<le> now_ms - time_last_decrease s
           then s\<lparr>time_last_decrease := now_ms,
                   bitrate :=
                     max (reduce_rate oor (bitrate s) (last_fraction_loss s))
                       (CalcTfrcBps oor (ucast (last_round_trip_time s))
                          (last_fraction_loss s))\<rparr>
           else s))"

text \<open>
  \<^verbatim>\<open>UpdateReceiverBlock\<close>. The quotient of the accumulators is an \<^verbatim>\<open>int\<close> division,
  which truncates towards zero (\<open>sdiv\<close>), and its result is narrowed to \<^verbatim>\<open>uint8_t\<close>.
\<close>

definition UpdateReceiverBlock ::
  "(real \<Rightarrow> 32 word) \<Rightarrow> 8 word \<Rightarrow> 32 word \<Rightarrow> int \<Rightarrow> 32 word \<Rightarrow>
     ('r::len) estimation \<Rightarrow> 'r estimation" where
  "UpdateReceiverBlock oor fraction_loss rtt number_of_packets now_ms s =
     (let s0 = s\<lparr>last_round_trip_time := ucast rtt\<rparr> in
      if 0 < number_of_packets then
        (let num_lost_packets_Q8 = uint fraction_loss * number_of_packets;
             s1 = s0\<lparr>accumulate_lost_packets_Q8 :=
                         accumulate_lost_packets_Q8 s0 + num_lost_packets_Q8,
                      accumulate_expected_packets :=
                         accumulate_expected_packets s0 + number_of_packets\<rparr>
         in if kLimitNumPackets \<le> accumulate_expected_packets s1
            then UpdateEstimate oor now_ms
                   (s1\<lparr>last_fraction_loss :=
                          word_of_int
                            (accumulate_lost_packets_Q8 s1 sdiv accumulate_expected_packets s1),
                       accumulate_lost_packets_Q8 := 0,
                       accumulate_expected_packets := 0\<rparr>)
            else s1)
      else UpdateEstimate oor now_ms s0)"

subsection \<open>Sequences of calls\<close>

datatype call =
    CallSetSendBitrate "32 word"
  | CallSetMinMaxBitrate "32 word" "32 word"
  | CallSetMinBitrate "32 word"
  | CallUpdateReceiverEstimate "32 word"
  | CallUpdateReceiverBlock "8 word" "32 word" int "32 word"

fun exec :: "(real \<Rightarrow> 32 word) \<Rightarrow> call \<Rightarrow> ('r::len) estimation \<Rightarrow> 'r estimation" where
  "exec oor (CallSetSendBitrate b) s = SetSendBitrate b s"
| "exec oor (CallSetMinMaxBitrate lo hi) s = SetMinMaxBitrate lo hi s"
| "exec oor (CallSetMinBitrate lo) s = SetMinBitrate lo s"
| "exec oor (CallUpdateReceiverEstimate bw) s = UpdateReceiverEstimate bw s"
| "exec oor (CallUpdateReceiverBlock f rtt n now_ms) s = UpdateReceiverBlock oor f rtt n now_ms s"

fun run :: "(real \<Rightarrow> 32 word) \<Rightarrow> call list \<Rightarrow> ('r::len) estimation \<Rightarrow> 'r estimation" where
  "run oor [] s = s"
| "run oor (c # cs) s = run oor cs (exec oor c s)"

text \<open>
  A report is absorbed when it adds packets and the sum stays below
  \<open>kLimitNumPackets\<close>: the early return of \<^verbatim>\<open>UpdateReceiverBlock\<close>.
\<close>

definition absorbed :: "int \<Rightarrow> ('r::len) estimation \<Rightarrow> bool" where
  "absorbed number_of_packets s \<longleftrightarrow>
     0 < number_of_packets \<and>
     accumulate_expected_packets s + number_of_packets < kLimitNumPackets"

text \<open>
  The region the clamp maps into: the bit rate is at least the configured minimum, and it
  is at most the configured maximum and at most a positive receiver estimate unless it
  equals the minimum.
\<close>

definition within_thresholds :: "('r::len) estimation \<Rightarrow> bool" where
  "within_thresholds s \<longleftrightarrow>
     min_bitrate_configured s \<le> bitrate s \<and>
     (bitrate s = min_bitrate_configured s \<or>
      (bitrate s \<le> max_bitrate_configured s \<and>
       (bwe_incoming s = 0 \<or> bitrate s \<le> bwe_incoming s)))"

text \<open>
  The bounds as the specification words them: between the configured minimum and
  maximum, and at most a positive receiver estimate.
\<close>

definition spec_bounds :: "('r::len) estimation \<Rightarrow> bool" where
  "spec_bounds s \<longleftrightarrow>
     min_bitrate_configured s \<le> bitrate s \<and> bitrate s \<le> max_bitrate_configured s \<and>
     (bwe_incoming s = 0 \<or> bitrate s \<le> bwe_incoming s)"

text \<open>
  The bounds of \<open>spec_bounds\<close> can only hold when the thresholds leave room for them: the
  configured minimum is neither above the configured maximum nor above a positive
  receiver estimate.
\<close>

definition consistent_thresholds :: "('r::len) estimation \<Rightarrow> bool" where
  "consistent_thresholds s \<longleftrightarrow>
     min_bitrate_configured s \<le> max_bitrate_configured s \<and>
     (bwe_incoming s = 0 \<or> min_bitrate_configured s \<le> bwe_incoming s)"







text \<open>
  The TFRC rate as the specification words it, on real numbers: the throughput equation
  of RFC 3448, section 3.1, with a packet size \<open>s\<close> of 1000 bytes, \<open>b = 1\<close> and a
  retransmission timeout of \<open>4 * R\<close>, in bits per second, for the round-trip time
  \<open>R = rtt_ms / 1000\<close> seconds and the loss rate \<open>p = loss_q8 / 255\<close>.
\<close>

definition spec_tfrc_bps :: "nat \<Rightarrow> nat \<Rightarrow> real" where
  "spec_tfrc_bps rtt_ms loss_q8 =
     (let R = real rtt_ms / 1000; p = real loss_q8 / 255; s = 1000
      in 8 * s / (R * sqrt (2 * p / 3) + 4 * R * (3 * sqrt (3 * p / 8) * p * (1 + 32 * p\<^sup>2))))"

text \<open>
  One rounding to binary64 moves a positive number by a factor of at most \<open>ulp_factor\<close>,
  up or down; \<open>rel_err k x y\<close> says that \<open>x\<close> is \<open>y\<close> up to \<open>k\<close> such factors.
\<close>

definition ulp_factor :: real where
  "ulp_factor = 2 ^ 53 / (2 ^ 53 - 1)"

definition rel_err :: "nat \<Rightarrow> real \<Rightarrow> real \<Rightarrow> bool" where
  "rel_err k x y \<longleftrightarrow> 0 < y \<and> y / ulp_factor ^ k \<le> x \<and> x \<le> y * ulp_factor ^ k"

section \<open>Rounding to binary64\<close>

text \<open>
  The exponent chosen by \<open>expo\<close> is the binary exponent, rounding moves a number by at
  most half a unit in the last place, and numbers with a significand of 53 bits are not
  moved at all. These facts turn the two floating-point updates of the bit rate into
  integer arithmetic.
\<close>

lemma real_pow2_le_of_int: "2 ^ k \<le> n \<Longrightarrow> (2::real) ^ k \<le> of_int n"
  using of_int_le_iff [where ?'a = real, of "2 ^ k" n] by simp

lemma of_int_less_real_pow2: "n < 2 ^ k \<Longrightarrow> real_of_int n + 1 \<le> 2 ^ k"
  using of_int_le_iff [where ?'a = real, of "n + 1" "2 ^ k"] by simp

lemma expo_bounds:
  assumes "0 < x"
  shows "2 powi expo x \<le> x" and "x < 2 powi (expo x + 1)"
proof -
  have "2 powi expo x \<le> x \<and> x < 2 powi (expo x + 1)"
  proof (cases "1 \<le> x")
    case True
    define n where "n = \<lfloor>x\<rfloor>"
    have n: "0 < n" "of_int n \<le> x" "x < of_int n + 1" using True unfolding n_def by linarith+
    from bitlen_bounds [OF n(1)]
    have b: "2 ^ nat (bitlen n - 1) \<le> n" "n < 2 ^ nat (bitlen n)" by auto
    have k: "1 \<le> bitlen n" using n(1) bitlen_eq_zero_iff [of n] bitlen_nonneg [of n] by linarith
    have e: "expo x = bitlen n - 1" using True by (simp add: expo_def n_def)
    have p1: "(2::real) powi (bitlen n - 1) = 2 ^ nat (bitlen n - 1)"
      using k by (simp add: power_int_nonneg_exp)
    have p2: "(2::real) powi (bitlen n) = 2 ^ nat (bitlen n)"
      using k by (simp add: power_int_nonneg_exp)
    have "2 powi (bitlen n - 1) \<le> x"
      using real_pow2_le_of_int [OF b(1)] n(2) unfolding p1 by linarith
    moreover have "x < 2 powi (bitlen n)"
      using of_int_less_real_pow2 [OF b(2)] n(3) unfolding p2 by linarith
    ultimately show ?thesis using e by simp
  next
    case False
    define y where "y = 1 / x"
    have y: "1 < y" using False assms by (simp add: y_def)
    define n where "n = \<lfloor>y\<rfloor>"
    have n: "0 < n" "of_int n \<le> y" "y < of_int n + 1" using y unfolding n_def by linarith+
    define k where "k = bitlen n"
    from bitlen_bounds [OF n(1)]
    have b: "2 ^ nat (k - 1) \<le> n" "n < 2 ^ nat k" by (auto simp: k_def)
    have k: "1 \<le> k"
      using n(1) bitlen_eq_zero_iff [of n] bitlen_nonneg [of n] unfolding k_def by linarith
    have l: "2 ^ nat (k - 1) \<le> y" using real_pow2_le_of_int [OF b(1)] n(2) by linarith
    have u: "y < 2 ^ nat k" using of_int_less_real_pow2 [OF b(2)] n(3) by linarith
    have x: "x = 1 / y" using assms by (simp add: y_def)
    have xl: "1 / 2 ^ nat k < x" unfolding x using u y
      by (intro divide_strict_left_mono) auto
    have xu: "x \<le> 1 / 2 ^ nat (k - 1)" unfolding x using l y
      by (intro divide_left_mono) auto
    have p1: "(2::real) powi (- k) = 1 / 2 ^ nat k"
      using k by (simp add: power_int_minus_divide power_int_nonneg_exp)
    have p2: "(2::real) powi (1 - k) = 1 / 2 ^ nat (k - 1)"
      using k power_int_minus_divide [of "2::real" "k - 1"] by (simp add: power_int_nonneg_exp)
    have p3: "(2::real) powi (2 - k) = 2 * 2 powi (1 - k)"
      using power_int_add [of "2::real" 1 "1 - k"] by simp
    have e: "expo x = (if x * 2 ^ nat (k - 1) = 1 then 1 - k else - k)"
      using False by (simp add: expo_def k_def n_def y_def Let_def)
    show ?thesis
    proof (cases "x * 2 ^ nat (k - 1) = 1")
      case True
      then have "x = 1 / 2 ^ nat (k - 1)" by (simp add: field_simps)
      then have "x = 2 powi (1 - k)" using p2 by simp
      moreover have "0 < (2::real) powi (1 - k)" by simp
      ultimately show ?thesis using e True p3 by simp
    next
      case F: False
      then have "x \<noteq> 1 / 2 ^ nat (k - 1)" by (auto simp: field_simps)
      then have "x < 2 powi (1 - k)" using xu p2 by simp
      moreover have "2 powi (- k) \<le> x" using xl p1 by simp
      ultimately show ?thesis using e F by simp
    qed
  qed
  then show "2 powi expo x \<le> x" and "x < 2 powi (expo x + 1)" by auto
qed

lemma two_powi_less_cancel: "(2::real) powi a < 2 powi b \<Longrightarrow> a < b"
  using power_int_increasing [of b a "2::real"] by (cases "a < b") auto

lemma expo_unique:
  assumes "0 < x" "2 powi e \<le> x" "x < 2 powi (e + 1)"
  shows "expo x = e"
proof -
  from expo_bounds [OF assms(1)] assms(2,3)
  have "(2::real) powi e < 2 powi (expo x + 1)" "(2::real) powi expo x < 2 powi (e + 1)"
    by linarith+
  then have "e < expo x + 1" "expo x < e + 1"
    by (auto dest: two_powi_less_cancel)
  then show ?thesis by linarith
qed

lemma round_half_even_error: "\<bar>of_int (round_half_even q) - q\<bar> \<le> 1 / 2"
proof -
  have "of_int \<lfloor>q\<rfloor> \<le> q" "q < of_int \<lfloor>q\<rfloor> + 1" by linarith+
  then show ?thesis by (auto simp: round_half_even_def Let_def)
qed

lemma round_half_even_of_int [simp]: "round_half_even (of_int n) = n"
  by (simp add: round_half_even_def)

lemma round_half_even_unique:
  assumes "\<bar>q - of_int m\<bar> < 1 / 2 \<or> (\<bar>q - of_int m\<bar> = 1 / 2 \<and> even m)"
  shows "round_half_even q = m"
proof (cases "\<bar>q - of_int m\<bar> < 1 / 2")
  case True
  have "\<bar>real_of_int (round_half_even q) - of_int m\<bar> < 1"
    using round_half_even_error [of q] True by linarith
  then have "\<bar>real_of_int (round_half_even q - m)\<bar> < 1" by simp
  then have "\<bar>round_half_even q - m\<bar> < 1" by linarith
  then show ?thesis by simp
next
  case False
  then have h: "\<bar>q - of_int m\<bar> = 1 / 2" "even m" using assms by auto
  show ?thesis
  proof (cases "q = of_int m + 1 / 2")
    case True
    have "\<lfloor>q\<rfloor> = m" unfolding True by linarith
    then show ?thesis using h(2) by (simp add: round_half_even_def Let_def True)
  next
    case F: False
    then have q: "q = of_int (m - 1) + 1 / 2" using h(1) by (simp add: abs_if split: if_splits)
    have "\<lfloor>q\<rfloor> = m - 1" unfolding q by linarith
    then show ?thesis using h(2) by (simp add: round_half_even_def Let_def q)
  qed
qed

lemma fl_0 [simp]: "fl 0 = 0"
  by (simp add: fl_def)

lemma fl_error:
  assumes "x \<noteq> 0"
  shows "\<bar>fl x - x\<bar> \<le> 2 powi (expo \<bar>x\<bar> - 53)"
proof -
  define u :: real where "u = 2 powi (expo \<bar>x\<bar> - 52)"
  define r where "r = round_half_even (\<bar>x\<bar> / u)"
  have u: "0 < u" by (simp add: u_def)
  have f: "fl x = sgn x * of_int r * u" using assms by (simp add: fl_def Let_def u_def r_def)
  have "x = sgn x * (\<bar>x\<bar> / u) * u" using u by (simp add: sgn_mult_abs)
  then have "fl x - x = sgn x * u * (of_int r - \<bar>x\<bar> / u)" unfolding f by (simp add: algebra_simps)
  then have "\<bar>fl x - x\<bar> = u * \<bar>of_int r - \<bar>x\<bar> / u\<bar>"
    using assms u by (simp add: abs_mult abs_sgn_eq)
  also have "\<dots> \<le> u * (1 / 2)"
    using round_half_even_error [of "\<bar>x\<bar> / u"] u unfolding r_def
    by (intro mult_left_mono) auto
  also have "\<dots> = 2 powi (expo \<bar>x\<bar> - 53)"
    using power_int_add [of "2::real" "expo \<bar>x\<bar> - 53" 1] by (simp add: u_def)
  finally show ?thesis .
qed

lemma fl_relative_error: "\<bar>fl x - x\<bar> \<le> \<bar>x\<bar> / 2 ^ 53"
proof (cases "x = 0")
  case True
  then show ?thesis by simp
next
  case False
  then have a: "0 < \<bar>x\<bar>" by simp
  have "(2::real) powi (expo \<bar>x\<bar> - 53) = 2 powi expo \<bar>x\<bar> / 2 ^ 53"
    using power_int_diff [of "2::real" "expo \<bar>x\<bar>" 53] by simp
  also have "\<dots> \<le> \<bar>x\<bar> / 2 ^ 53"
    using expo_bounds(1) [OF a] by (intro divide_right_mono) auto
  finally show ?thesis using fl_error [OF False] by linarith
qed

lemma fl_exact:
  assumes x: "x = of_int m * 2 powi k" and m: "\<bar>m\<bar> < 2 ^ 53"
  shows "fl x = x"
proof (cases "m = 0")
  case True
  then show ?thesis using x by simp
next
  case False
  define a where "a = \<bar>x\<bar>"
  have a: "a = of_int \<bar>m\<bar> * 2 powi k" by (simp add: a_def x abs_mult)
  have a0: "0 < a" using False by (simp add: a)
  have x0: "x \<noteq> 0" using a0 by (auto simp: a_def)
  define e where "e = expo a"
  have "real_of_int \<bar>m\<bar> < 2 ^ 53"
    using m of_int_less_iff [where ?'a = real, of "\<bar>m\<bar>" "2 ^ 53"] by simp
  then have "a < 2 ^ 53 * 2 powi k" unfolding a by (intro mult_strict_right_mono) auto
  also have "\<dots> = 2 powi (k + 53)" using power_int_add [of "2::real" k 53] by simp
  finally have "2 powi e < (2::real) powi (k + 53)" using expo_bounds(1) [OF a0] by (simp add: e_def)
  then have "e < k + 53" by (rule two_powi_less_cancel)
  then have d: "0 \<le> k - e + 52" by simp
  define u :: real where "u = 2 powi (e - 52)"
  have "2 powi k / u = (2::real) powi (k - e + 52)"
    using power_int_diff [of "2::real" k "e - 52"] by (simp add: u_def algebra_simps)
  also have "\<dots> = 2 ^ nat (k - e + 52)" using d by (simp add: power_int_nonneg_exp)
  finally have pk: "2 powi k / u = 2 ^ nat (k - e + 52)" .
  have "a / u = of_int \<bar>m\<bar> * (2 powi k / u)" by (simp add: a)
  also have "\<dots> = of_int (\<bar>m\<bar> * 2 ^ nat (k - e + 52))" unfolding pk by simp
  finally have q: "a / u = of_int (\<bar>m\<bar> * 2 ^ nat (k - e + 52))" .
  have "real_of_int (round_half_even (a / u)) = a / u"
    by (simp only: q round_half_even_of_int)
  moreover have "0 < u" by (simp add: u_def)
  ultimately have "of_int (round_half_even (a / u)) * u = a"
    by simp
  then have "fl x = sgn x * a"
    using x0 by (simp add: fl_def Let_def a_def [symmetric] e_def [symmetric] u_def [symmetric] mult.assoc)
  then show ?thesis by (simp add: a_def sgn_mult_abs)
qed

lemma fl_of_nat: "n < 2 ^ 53 \<Longrightarrow> fl (real n) = real n"
  using fl_exact [of "real n" "int n" 0] by simp

lemma fl_eqI:
  assumes "2 ^ 52 \<le> x * 2 ^ k" and "x * 2 ^ k < 2 ^ 53"
    and "\<bar>x * 2 ^ k - of_int m\<bar> < 1 / 2 \<or> (\<bar>x * 2 ^ k - of_int m\<bar> = 1 / 2 \<and> even m)"
  shows "fl x = of_int m / 2 ^ k"
proof -
  have "(0::real) < 2 ^ 52" by simp
  then have "0 < x * 2 ^ k" using assms(1) by linarith
  then have x: "0 < x" by (simp add: zero_less_mult_iff)
  have p: "(2::real) powi (52 - int k) = 2 ^ 52 / 2 ^ k" "(2::real) powi (53 - int k) = 2 ^ 53 / 2 ^ k"
    by (simp_all add: power_int_diff)
  have "2 powi (52 - int k) \<le> x" "x < 2 powi (52 - int k + 1)"
    using assms(1,2) by (simp_all add: p field_simps)
  then have e: "expo x = 52 - int k" using x by (intro expo_unique) auto
  have u: "(2::real) powi (expo x - 52) = 1 / 2 ^ k"
    unfolding e by (simp add: power_int_minus_divide)
  have "round_half_even (x / (1 / 2 ^ k)) = m"
    using assms(3) by (intro round_half_even_unique) simp
  then show ?thesis using x by (simp add: fl_def Let_def u)
qed

subsection \<open>The square root\<close>

text \<open>
  The integer square root is the floor of the real one, so \<open>double_sqrt\<close> is the real
  square root rounded to binary64.
\<close>

lemma floor_sqrt_correct:
  "0 \<le> n \<Longrightarrow>
     0 \<le> floor_sqrt n \<and> floor_sqrt n * floor_sqrt n \<le> n \<and>
     n < (floor_sqrt n + 1) * (floor_sqrt n + 1)"
proof (induction n rule: floor_sqrt.induct)
  case (1 n)
  show ?case
  proof (cases "n \<le> 0")
    case True
    then have "n = 0" using "1.prems" by simp
    then show ?thesis by (simp add: floor_sqrt.simps)
  next
    case False
    define q where "q = floor_sqrt (n div 4)"
    have "0 \<le> n div 4" using "1.prems" by simp
    from "1.IH" [OF False this]
    have q: "0 \<le> q" "q * q \<le> n div 4" "n div 4 + 1 \<le> (q + 1) * (q + 1)"
      by (simp_all add: q_def)
    have d: "4 * (n div 4) \<le> n" "n < 4 * (n div 4) + 4" by simp_all
    have e1: "(2 * q) * (2 * q) = 4 * (q * q)" by simp
    have e2: "(2 * q + 1 + 1) * (2 * q + 1 + 1) = 4 * ((q + 1) * (q + 1))"
      by (simp add: algebra_simps)
    have f: "floor_sqrt n = (if (2 * q + 1) * (2 * q + 1) \<le> n then 2 * q + 1 else 2 * q)"
      using False by (subst floor_sqrt.simps) (simp add: q_def Let_def)
    show ?thesis
    proof (cases "(2 * q + 1) * (2 * q + 1) \<le> n")
      case True
      have "n < (2 * q + 1 + 1) * (2 * q + 1 + 1)" unfolding e2 using q(3) d(2) by linarith
      then show ?thesis using True q(1) by (simp add: f)
    next
      case F: False
      have "(2 * q) * (2 * q) \<le> n" unfolding e1 using q(2) d(1) by linarith
      then show ?thesis using F q(1) by (simp add: f)
    qed
  qed
qed

lemma floor_sqrt_floor:
  assumes "0 \<le> z"
  shows "\<lfloor>sqrt z\<rfloor> = floor_sqrt \<lfloor>z\<rfloor>"
proof -
  define f where "f = floor_sqrt \<lfloor>z\<rfloor>"
  have "0 \<le> \<lfloor>z\<rfloor>" using assms by simp
  from floor_sqrt_correct [OF this]
  have f: "0 \<le> f" "f * f \<le> \<lfloor>z\<rfloor>" "\<lfloor>z\<rfloor> + 1 \<le> (f + 1) * (f + 1)" by (simp_all add: f_def)
  have "real_of_int (f * f) \<le> of_int \<lfloor>z\<rfloor>" using f(2) by (rule of_int_le_iff [THEN iffD2])
  then have "(real_of_int f)\<^sup>2 \<le> z" by (simp add: power2_eq_square) linarith
  then have l: "real_of_int f \<le> sqrt z" by (rule real_le_rsqrt)
  have "real_of_int (\<lfloor>z\<rfloor> + 1) \<le> of_int ((f + 1) * (f + 1))"
    using f(3) by (rule of_int_le_iff [THEN iffD2])
  then have "z < (real_of_int f + 1)\<^sup>2" by (simp add: power2_eq_square) linarith
  moreover have "0 \<le> real_of_int f + 1" using f(1) by simp
  ultimately have u: "sqrt z < real_of_int f + 1" by (intro real_less_lsqrt)
  show ?thesis unfolding f_def [symmetric] using l u by linarith
qed

lemma expo_sqrt:
  assumes "0 < x"
  shows "expo (sqrt x) = expo x div 2"
proof (rule expo_unique)
  define e where "e = expo x"
  define h where "h = e div 2"
  have e: "2 * h \<le> e" "e + 1 \<le> 2 * h + 2" by (simp_all add: h_def)
  show "0 < sqrt x" using assms by simp
  have "(2 powi h)\<^sup>2 = (2::real) powi (2 * h)"
    by (simp add: power2_eq_square flip: power_int_add)
  also have "\<dots> \<le> 2 powi e" using e(1) by (intro power_int_increasing) auto
  also have "\<dots> \<le> x" unfolding e_def by (rule expo_bounds(1) [OF assms])
  finally show "2 powi (expo x div 2) \<le> sqrt x"
    unfolding e_def [symmetric] h_def [symmetric] by (rule real_le_rsqrt)
  have "x < 2 powi (e + 1)" unfolding e_def by (rule expo_bounds(2) [OF assms])
  also have "\<dots> \<le> 2 powi (2 * h + 2)" using e(2) by (intro power_int_increasing) auto
  also have "\<dots> = (2 powi (h + 1))\<^sup>2"
    by (simp add: power2_eq_square algebra_simps flip: power_int_add)
  finally show "sqrt x < 2 powi (expo x div 2 + 1)"
    unfolding e_def [symmetric] h_def [symmetric] by (intro real_less_lsqrt) auto
qed

lemma round_half_even_sqrt:
  assumes "0 \<le> z"
  defines "f \<equiv> floor_sqrt \<lfloor>z\<rfloor>"
  defines "h \<equiv> (of_int f + 1 / 2) * (of_int f + 1 / 2)"
  shows "round_half_even (sqrt z) =
     (if z < h then f else if h < z then f + 1 else if even f then f else f + 1)"
proof -
  have fl: "\<lfloor>sqrt z\<rfloor> = f" unfolding f_def by (rule floor_sqrt_floor [OF assms(1)])
  have f0: "0 \<le> f" using floor_sqrt_correct [of "\<lfloor>z\<rfloor>"] assms(1) by (simp add: f_def)
  then have a: "0 \<le> real_of_int f + 1 / 2" by simp
  have h: "h = (real_of_int f + 1 / 2)\<^sup>2" by (simp add: h_def power2_eq_square)
  have "sqrt z < real_of_int f + 1 / 2 \<longleftrightarrow> z < h"
  proof
    assume "sqrt z < real_of_int f + 1 / 2"
    then have "(sqrt z)\<^sup>2 < (real_of_int f + 1 / 2)\<^sup>2"
      using assms(1) by (intro power_strict_mono) auto
    then show "z < h" using assms(1) by (simp add: h)
  next
    assume "z < h"
    then show "sqrt z < real_of_int f + 1 / 2" unfolding h using a by (intro real_less_lsqrt)
  qed
  moreover have "real_of_int f + 1 / 2 < sqrt z \<longleftrightarrow> h < z"
  proof
    assume "real_of_int f + 1 / 2 < sqrt z"
    then have "(real_of_int f + 1 / 2)\<^sup>2 < (sqrt z)\<^sup>2"
      using a by (intro power_strict_mono) auto
    then show "h < z" using assms(1) by (simp add: h)
  next
    assume "h < z"
    then show "real_of_int f + 1 / 2 < sqrt z" unfolding h by (rule real_less_rsqrt)
  qed
  ultimately show ?thesis
    unfolding round_half_even_def fl Let_def
    by (auto simp: algebra_simps)
qed

lemma double_sqrt_eq:
  assumes "0 < x"
  shows "double_sqrt x = fl (sqrt x)"
proof -
  define u :: real where "u = 2 powi (expo x div 2 - 52)"
  have u: "0 < u" by (simp add: u_def)
  define z where "z = x / (u * u)"
  have z: "0 \<le> z" using assms u by (simp add: z_def)
  have s: "sqrt x / u = sqrt z"
    unfolding z_def using u by (simp add: real_sqrt_divide)
  have y: "0 < sqrt x" using assms by simp
  have "fl (sqrt x) = of_int (round_half_even (sqrt x / u)) * u"
    using y by (simp add: fl_def Let_def expo_sqrt [OF assms] u_def)
  also have "\<dots> = double_sqrt x"
    unfolding s round_half_even_sqrt [OF z]
    using assms by (simp add: double_sqrt_def Let_def u_def [symmetric] z_def [symmetric])
  finally show ?thesis by simp
qed

lemma double_sqrt_eqI:
  assumes "2 ^ 52 < m" and "m < 2 ^ 53"
    and "(of_int m - 1 / 2)\<^sup>2 < x * 4 ^ k" and "x * 4 ^ k < (of_int m + 1 / 2)\<^sup>2"
  shows "double_sqrt x = of_int m / 2 ^ k"
proof -
  have "2 ^ 52 + 1 \<le> m" "m \<le> 2 ^ 53 - 1" using assms(1,2) by simp_all
  then have "real_of_int (2 ^ 52 + 1) \<le> real_of_int m" "real_of_int m \<le> real_of_int (2 ^ 53 - 1)"
    by (simp_all only: of_int_le_iff)
  then have m: "2 ^ 52 + 1 \<le> real_of_int m" "real_of_int m \<le> 2 ^ 53 - 1"
    by simp_all
  have "0 \<le> (real_of_int m - 1 / 2)\<^sup>2" by simp
  then have "0 < x * 4 ^ k" using assms(3) by linarith
  then have x: "0 < x" by (simp add: zero_less_mult_iff)
  have s: "sqrt x * 2 ^ k = sqrt (x * 4 ^ k)"
  proof -
    have "(4::real) ^ k = (2 ^ k)\<^sup>2" by (simp add: power2_eq_square flip: power_mult_distrib)
    then show ?thesis by (simp add: real_sqrt_mult)
  qed
  have l: "of_int m - 1 / 2 < sqrt x * 2 ^ k"
    unfolding s using assms(3) by (rule real_less_rsqrt)
  have u: "sqrt x * 2 ^ k < of_int m + 1 / 2"
    unfolding s using assms(4) m by (intro real_less_lsqrt) auto
  have r1: "2 ^ 52 \<le> sqrt x * 2 ^ k" using l m(1) by linarith
  have r2: "sqrt x * 2 ^ k < 2 ^ 53" using u m(2) by linarith
  have r3: "\<bar>sqrt x * 2 ^ k - of_int m\<bar> < 1 / 2" using l u by linarith
  show ?thesis unfolding double_sqrt_eq [OF x] by (rule fl_eqI [OF r1 r2 disjI1 [OF r3]])
qed

subsection \<open>The updates of the bit rate on integers\<close>

text \<open>
  Both floating-point updates of the bit rate have an integer form: the reduction is
  exact, and the rounding errors of the increase are too small to change the result of
  the truncation.
\<close>

lemma truncate_double_nonneg: "0 \<le> x \<Longrightarrow> truncate_double x = \<lfloor>x\<rfloor>"
  by (simp add: truncate_double_def)

lemma uint32_of_double_in_range:
  assumes "real n \<le> x" "x < real n + 1" "n < 2 ^ 32"
  shows "uint32_of_double oor x = word_of_nat n"
proof -
  have "0 \<le> x" using assms(1) by linarith
  moreover have "\<lfloor>x\<rfloor> = int n" using assms(1,2) by linarith
  moreover have "int n < 2 ^ 32" using assms(3) by simp
  ultimately show ?thesis by (simp add: uint32_of_double_def truncate_double_def)
qed

lemma uint32_of_double_floor:
  assumes "0 \<le> x" "\<lfloor>x\<rfloor> = int n" "n < 2 ^ 32"
  shows "uint32_of_double oor x = word_of_nat n"
  using assms by (simp add: uint32_of_double_def truncate_double_def)

lemma reduce_rate_exact:
  "reduce_rate oor b l = word_of_nat (unat b * (512 - unat l) div 512)"
proof -
  define P where "P = unat b * (512 - unat l)"
  have b: "unat b < 2 ^ 32" using unsigned_less [of b] by simp
  have "unat l < 2 ^ LENGTH(8)" by (rule unsigned_less)
  then have l: "unat l < 256" by simp
  have "P \<le> unat b * 512" unfolding P_def by (intro mult_le_mono2) simp
  then have P: "P < 2 ^ 41" using b by simp
  have u: "uint l = int (unat l)" by simp
  have "double_of_uint32 b * real_of_int (512 - uint l) = real (unat b) * real (512 - unat l)"
    using l unfolding double_of_uint32_def u by (simp add: of_nat_diff)
  also have "\<dots> = real P" by (simp add: P_def)
  finally have m: "double_mul (double_of_uint32 b) (real_of_int (512 - uint l)) = real P"
    using fl_of_nat [of P] P by (simp add: double_mul_def)
  have "real P / 512 = of_int (int P) * 2 powi (- 9)"
    by (simp add: power_int_minus_divide)
  then have d: "double_div (real P) 512 = real P / 512"
    using fl_exact [of "real P / 512" "int P" "- 9"] P by (simp add: double_div_def)
  have "\<lfloor>real P / 512\<rfloor> = int (P div 512)"
    using floor_divide_of_nat_eq [of P 512, where ?'a = real] by simp
  moreover have "P div 512 < 2 ^ 32" using P by simp
  moreover have "0 \<le> real P / 512" by simp
  ultimately show ?thesis unfolding reduce_rate_def m d P_def [symmetric]
    by (intro uint32_of_double_floor)
qed

lemma fl_108: "fl (108 / 100) = 4863887597560136 / 4503599627370496"
  by code_simp

lemma round_108:
  fixes n :: nat
  defines "m \<equiv> 108 * n + 50"
  shows "100 * (m div 100) + 2 \<le> m" and "m \<le> 100 * (m div 100) + 98"
proof -
  define r where "r = m mod 100"
  have m: "m = 100 * (m div 100) + r" by (simp add: r_def)
  have "even m" by (simp add: m_def)
  then have e: "even r" unfolding r_def by (simp add: dvd_mod)
  have "m = 4 * (27 * n + 12) + 2" by (simp add: m_def)
  then have m4: "m mod 4 = 2" by (metis mod_mult_self4 mod_less numeral_less_iff semiring_norm(76) semiring_norm(78) semiring_norm(79))
  have r0: "r \<noteq> 0"
  proof
    assume "r = 0"
    then have "100 dvd m" by (simp add: r_def dvd_eq_mod_eq_0)
    moreover have "(4::nat) dvd 100" by simp
    ultimately have "4 dvd m" by (rule dvd_trans [rotated])
    then show False using m4 by (simp add: dvd_eq_mod_eq_0)
  qed
  have "r < 100" by (simp add: r_def)
  with e r0 have "2 \<le> r \<and> r \<le> 98" by (auto elim!: evenE)
  then show "100 * (m div 100) + 2 \<le> m" and "m \<le> 100 * (m div 100) + 98"
    using m by linarith+
qed

lemma increase_floor:
  assumes n: "n < 2 ^ 32"
  defines "N \<equiv> (108 * n + 50) div 100"
  defines "z \<equiv> double_add (double_mul (real n) (fl (108 / 100))) (1 / 2)"
  shows "real N \<le> z" and "z < real N + 1"
proof -
  define c :: real where "c = 4863887597560136 / 4503599627370496"
  have c: "0 \<le> c - 108 / 100" "c - 108 / 100 \<le> 1 / 10 ^ 16" by (simp_all add: c_def)
  define x where "x = real n * c"
  define f where "f = fl x"
  define d where "d = real n * (c - 108 / 100)"
  have nr: "0 \<le> real n" "real n \<le> 4294967296" using n by simp_all
  have z: "z = fl (f + 1 / 2)"
    unfolding z_def f_def x_def double_add_def double_mul_def fl_108 c_def ..
  have "d \<le> 4294967296 * (1 / 10 ^ 16)"
    unfolding d_def using nr c by (intro mult_mono) auto
  then have d1: "d \<le> 1 / 100000" by simp
  have d0: "0 \<le> d" unfolding d_def using nr c by (intro mult_nonneg_nonneg)
  have xd: "x = 108 / 100 * real n + d" by (simp add: x_def d_def algebra_simps)
  have x0: "0 \<le> x" "x \<le> 8589934592" using xd d0 d1 nr by linarith+
  have "\<bar>f - x\<bar> \<le> \<bar>x\<bar> / 2 ^ 53" unfolding f_def by (rule fl_relative_error)
  also have "\<dots> \<le> 8589934592 / 2 ^ 53" using x0 by (intro divide_right_mono) auto
  finally have fe: "\<bar>f - x\<bar> \<le> 1 / 100000" by simp
  have y: "0 \<le> f + 1 / 2" "f + 1 / 2 \<le> 17179869184" using fe x0 by linarith+
  have "\<bar>z - (f + 1 / 2)\<bar> \<le> \<bar>f + 1 / 2\<bar> / 2 ^ 53" unfolding z by (rule fl_relative_error)
  also have "\<dots> \<le> 17179869184 / 2 ^ 53" using y by (intro divide_right_mono) auto
  finally have ze: "\<bar>z - (f + 1 / 2)\<bar> \<le> 1 / 100000" by simp
  have "real (100 * N + 2) \<le> real (108 * n + 50)" "real (108 * n + 50) \<le> real (100 * N + 98)"
    unfolding N_def using round_108 [of n] by (simp_all only: of_nat_le_iff)
  then have v: "100 * real N + 2 \<le> 108 * real n + 50" "108 * real n + 50 \<le> 100 * real N + 98"
    by simp_all
  show "real N \<le> z" using v xd d0 d1 fe ze by linarith
  show "z < real N + 1" using v xd d0 d1 fe ze by linarith
qed

lemma increase_rate_exact:
  assumes "(108 * unat b + 50) div 100 < 2 ^ 32"
  shows "increase_rate oor b = word_of_nat ((108 * unat b + 50) div 100) + 1000"
proof -
  have b: "unat b < 2 ^ 32" using unsigned_less [of b] by simp
  have "uint32_of_double oor (double_add (double_mul (real (unat b)) (fl (108 / 100))) (1 / 2))
          = word_of_nat ((108 * unat b + 50) div 100)"
    using increase_floor [OF b] assms by (rule uint32_of_double_in_range)
  then show ?thesis by (simp only: increase_rate_def double_of_uint32_def)
qed

subsection \<open>Accumulated rounding errors\<close>

lemma ulp_factor_gt_1: "1 < ulp_factor"
  by (simp add: ulp_factor_def)

lemma ulp_power_ge_1: "1 \<le> ulp_factor ^ k"
  using ulp_factor_gt_1 by (intro one_le_power) simp

lemma ulp_power_19: "ulp_factor ^ 19 \<le> 1 + 1 / 10 ^ 14"
  by (simp add: ulp_factor_def power_divide)

lemma rel_err_pos: "rel_err k x y \<Longrightarrow> 0 < x"
proof -
  assume a: "rel_err k x y"
  have "0 < ulp_factor ^ k" using ulp_power_ge_1 [of k] by linarith
  then have "0 < y / ulp_factor ^ k" using a by (simp add: rel_err_def)
  then show ?thesis using a by (simp add: rel_err_def)
qed

lemma rel_err_refl: "0 < c \<Longrightarrow> rel_err 0 c c"
  by (simp add: rel_err_def)

lemma rel_err_mono:
  assumes "rel_err j x y" and "j \<le> k"
  shows "rel_err k x y"
proof -
  have y: "0 < y" using assms(1) by (simp add: rel_err_def)
  have p: "ulp_factor ^ j \<le> ulp_factor ^ k"
    using ulp_factor_gt_1 assms(2) by (intro power_increasing) auto
  have j: "0 < ulp_factor ^ j" using ulp_power_ge_1 [of j] by linarith
  have "y / ulp_factor ^ k \<le> y / ulp_factor ^ j"
    using y p j by (intro divide_left_mono) auto
  moreover have "y * ulp_factor ^ j \<le> y * ulp_factor ^ k"
    using y p by (intro mult_left_mono) auto
  ultimately show ?thesis using assms(1) unfolding rel_err_def by linarith
qed

lemma fl_bounds:
  assumes "0 < x"
  shows "x / ulp_factor \<le> fl x" and "fl x \<le> x * ulp_factor"
proof -
  have e: "\<bar>fl x - x\<bar> \<le> x / 2 ^ 53" using fl_relative_error [of x] assms by simp
  have "x / ulp_factor = x - x / 2 ^ 53" by (simp add: ulp_factor_def field_simps)
  then show "x / ulp_factor \<le> fl x" using e by linarith
  have "1 + 1 / 2 ^ 53 \<le> ulp_factor" by (simp add: ulp_factor_def)
  then have "x * (1 + 1 / 2 ^ 53) \<le> x * ulp_factor" using assms by (intro mult_left_mono) auto
  moreover have "x * (1 + 1 / 2 ^ 53) = x + x / 2 ^ 53" by (simp add: algebra_simps)
  ultimately show "fl x \<le> x * ulp_factor" using e by linarith
qed

lemma rel_err_fl:
  assumes "rel_err k x y"
  shows "rel_err (Suc k) (fl x) y"
proof -
  have x: "0 < x" by (rule rel_err_pos [OF assms])
  have y: "0 < y" "y / ulp_factor ^ k \<le> x" "x \<le> y * ulp_factor ^ k"
    using assms by (simp_all add: rel_err_def)
  have u: "0 < ulp_factor" using ulp_factor_gt_1 by linarith
  have "y / ulp_factor ^ Suc k = (y / ulp_factor ^ k) / ulp_factor" by simp
  also have "\<dots> \<le> x / ulp_factor" using y(2) u by (intro divide_right_mono) auto
  also have "\<dots> \<le> fl x" by (rule fl_bounds(1) [OF x])
  finally have l: "y / ulp_factor ^ Suc k \<le> fl x" .
  have "fl x \<le> x * ulp_factor" by (rule fl_bounds(2) [OF x])
  also have "\<dots> \<le> (y * ulp_factor ^ k) * ulp_factor" using y(3) u by (intro mult_right_mono) auto
  also have "\<dots> = y * ulp_factor ^ Suc k" by simp
  finally show ?thesis using l y(1) by (simp add: rel_err_def)
qed

lemma rel_err_mult:
  assumes "rel_err j a a'" and "rel_err k b b'"
  shows "rel_err (j + k) (a * b) (a' * b')"
proof -
  have a: "0 < a'" "a' / ulp_factor ^ j \<le> a" "a \<le> a' * ulp_factor ^ j"
    using assms(1) by (simp_all add: rel_err_def)
  have b: "0 < b'" "b' / ulp_factor ^ k \<le> b" "b \<le> b' * ulp_factor ^ k"
    using assms(2) by (simp_all add: rel_err_def)
  have pj: "0 < ulp_factor ^ j" using ulp_power_ge_1 [of j] by linarith
  have pk: "0 < ulp_factor ^ k" using ulp_power_ge_1 [of k] by linarith
  have "(a' / ulp_factor ^ j) * (b' / ulp_factor ^ k) \<le> a * b"
    using a b pj pk rel_err_pos [OF assms(1)] by (intro mult_mono) auto
  then have l: "a' * b' / ulp_factor ^ (j + k) \<le> a * b" by (simp add: power_add)
  have "a * b \<le> (a' * ulp_factor ^ j) * (b' * ulp_factor ^ k)"
    using a b pj pk rel_err_pos [OF assms(2)] by (intro mult_mono) auto
  then have "a * b \<le> a' * b' * ulp_factor ^ (j + k)" by (simp add: power_add algebra_simps)
  then show ?thesis using l a(1) b(1) by (simp add: rel_err_def)
qed

lemma rel_err_divide:
  assumes "rel_err j a a'" and "rel_err k b b'"
  shows "rel_err (j + k) (a / b) (a' / b')"
proof -
  have a: "0 < a'" "a' / ulp_factor ^ j \<le> a" "a \<le> a' * ulp_factor ^ j"
    using assms(1) by (simp_all add: rel_err_def)
  have b: "0 < b'" "b' / ulp_factor ^ k \<le> b" "b \<le> b' * ulp_factor ^ k"
    using assms(2) by (simp_all add: rel_err_def)
  have pj: "0 < ulp_factor ^ j" using ulp_power_ge_1 [of j] by linarith
  have pk: "0 < ulp_factor ^ k" using ulp_power_ge_1 [of k] by linarith
  have b0: "0 < b" by (rule rel_err_pos [OF assms(2)])
  have "(a' / ulp_factor ^ j) / (b' * ulp_factor ^ k) \<le> a / b"
    using a b pj pk b0 rel_err_pos [OF assms(1)] by (intro frac_le) auto
  then have l: "a' / b' / ulp_factor ^ (j + k) \<le> a / b" by (simp add: power_add ac_simps)
  have "a / b \<le> (a' * ulp_factor ^ j) / (b' / ulp_factor ^ k)"
    using a b pj pk rel_err_pos [OF assms(1)] b0 by (intro frac_le) auto
  then have "a / b \<le> a' / b' * ulp_factor ^ (j + k)" by (simp add: power_add algebra_simps)
  then show ?thesis using l a(1) b(1) by (simp add: rel_err_def)
qed

lemma rel_err_add:
  assumes "rel_err k a a'" and "rel_err k b b'"
  shows "rel_err k (a + b) (a' + b')"
  using assms by (auto simp: rel_err_def add_divide_distrib algebra_simps intro: add_mono)

lemma rel_err_sqrt:
  assumes "rel_err k a a'"
  shows "rel_err k (sqrt a) (sqrt a')"
proof -
  have a: "0 < a'" "a' / ulp_factor ^ k \<le> a" "a \<le> a' * ulp_factor ^ k"
    using assms by (simp_all add: rel_err_def)
  have p: "1 \<le> ulp_factor ^ k" by (rule ulp_power_ge_1)
  have "sqrt (ulp_factor ^ k) \<le> ulp_factor ^ k"
    using p by (intro real_le_lsqrt) (auto simp: power2_eq_square intro: mult_left_le)
  moreover have s0: "0 < sqrt (ulp_factor ^ k)" using p by simp
  moreover have r: "0 < sqrt a'" using a(1) by simp
  ultimately have "sqrt a' / ulp_factor ^ k \<le> sqrt a' / sqrt (ulp_factor ^ k)"
    "sqrt a' * sqrt (ulp_factor ^ k) \<le> sqrt a' * ulp_factor ^ k"
    by (auto intro!: divide_left_mono mult_left_mono)
  moreover have "sqrt a' / sqrt (ulp_factor ^ k) \<le> sqrt a"
    using a(2) by (simp flip: real_sqrt_divide)
  moreover have "sqrt a \<le> sqrt a' * sqrt (ulp_factor ^ k)"
    using a(3) by (simp flip: real_sqrt_mult)
  ultimately show ?thesis using r unfolding rel_err_def by linarith
qed

lemma rel_err_double_mul:
  "rel_err j a a' \<Longrightarrow> rel_err k b b' \<Longrightarrow> Suc (j + k) \<le> n \<Longrightarrow>
     rel_err n (double_mul a b) (a' * b')"
  unfolding double_mul_def by (rule rel_err_mono [OF rel_err_fl [OF rel_err_mult]])

lemma rel_err_double_div:
  "rel_err j a a' \<Longrightarrow> rel_err k b b' \<Longrightarrow> Suc (j + k) \<le> n \<Longrightarrow>
     rel_err n (double_div a b) (a' / b')"
  unfolding double_div_def by (rule rel_err_mono [OF rel_err_fl [OF rel_err_divide]])

lemma rel_err_double_add:
  "rel_err j a a' \<Longrightarrow> rel_err k b b' \<Longrightarrow> Suc (max j k) \<le> n \<Longrightarrow>
     rel_err n (double_add a b) (a' + b')"
  unfolding double_add_def
  by (rule rel_err_mono [OF rel_err_fl [OF rel_err_add [of "max j k"]]])
     (auto intro: rel_err_mono)

lemma rel_err_double_sqrt:
  assumes "rel_err k a a'" and "Suc k \<le> n"
  shows "rel_err n (double_sqrt a) (sqrt a')"
  unfolding double_sqrt_eq [OF rel_err_pos [OF assms(1)]]
  by (rule rel_err_mono [OF rel_err_fl [OF rel_err_sqrt [OF assms(1)]] assms(2)])

subsection \<open>The TFRC rate\<close>

text \<open>
  The 19 roundings of \<^verbatim>\<open>CalcTfrcBps\<close> against the exact rate, and one value of the
  function computed step by step.
\<close>

lemma CalcTfrcBps_0 [simp]: "CalcTfrcBps oor 0 loss = 0" "CalcTfrcBps oor rtt 0 = 0"
  by (simp_all add: CalcTfrcBps_def)

lemma CalcTfrcBps_rel_err:
  assumes "rtt \<noteq> 0" and "loss \<noteq> 0"
  shows "\<exists>Y. CalcTfrcBps oor rtt loss = uint32_of_double oor Y \<and>
     rel_err 19 Y (spec_tfrc_bps (unat rtt) (unat loss))"
proof -
  define r where "r = real (unat rtt)"
  define l where "l = real (unat loss)"
  have "0 < unat rtt" using assms(1) by (simp add: unat_gt_0)
  then have r: "0 < r" unfolding r_def by (rule of_nat_0_less_iff [THEN iffD2])
  have "0 < unat loss" using assms(2) by (simp add: unat_gt_0)
  then have l: "0 < l" unfolding l_def by (rule of_nat_0_less_iff [THEN iffD2])
  define R where "R = double_div r 1000"
  define p where "p = double_div l 255"
  define R' where "R' = r / 1000"
  define p' where "p' = l / 255"
  have c [simp]: "rel_err 0 x x" if "0 < x" for x using that by (rule rel_err_refl)
  have eR: "rel_err 1 R R'"
    unfolding R_def R'_def using r by (intro rel_err_double_div [of 0 _ _ 0]) auto
  have ep: "rel_err 1 p p'"
    unfolding p_def p'_def using l by (intro rel_err_double_div [of 0 _ _ 0]) auto
  have t: "rel_err 2 (double_mul 4 R) (4 * R')"
    by (rule rel_err_double_mul [OF c eR]) auto
  have a1: "rel_err 2 (double_mul 2 p) (2 * p')"
    by (rule rel_err_double_mul [OF c ep]) auto
  have a2: "rel_err 3 (double_div (double_mul 2 p) 3) (2 * p' / 3)"
    by (rule rel_err_double_div [OF a1 c]) auto
  have a3: "rel_err 4 (double_sqrt (double_div (double_mul 2 p) 3)) (sqrt (2 * p' / 3))"
    by (rule rel_err_double_sqrt [OF a2]) auto
  have a4: "rel_err 6 (double_mul R (double_sqrt (double_div (double_mul 2 p) 3)))
      (R' * sqrt (2 * p' / 3))"
    by (rule rel_err_double_mul [OF eR a3]) auto
  have c1: "rel_err 2 (double_mul 3 p) (3 * p')"
    by (rule rel_err_double_mul [OF c ep]) auto
  have c2: "rel_err 3 (double_div (double_mul 3 p) 8) (3 * p' / 8)"
    by (rule rel_err_double_div [OF c1 c]) auto
  have c3: "rel_err 4 (double_sqrt (double_div (double_mul 3 p) 8)) (sqrt (3 * p' / 8))"
    by (rule rel_err_double_sqrt [OF c2]) auto
  have c4: "rel_err 5 (double_mul 3 (double_sqrt (double_div (double_mul 3 p) 8)))
      (3 * sqrt (3 * p' / 8))"
    by (rule rel_err_double_mul [OF c c3]) auto
  have c5: "rel_err 7 (double_mul (double_mul 3 (double_sqrt (double_div (double_mul 3 p) 8))) p)
      (3 * sqrt (3 * p' / 8) * p')"
    by (rule rel_err_double_mul [OF c4 ep]) auto
  have d1: "rel_err 2 (double_mul 32 p) (32 * p')"
    by (rule rel_err_double_mul [OF c ep]) auto
  have d2: "rel_err 4 (double_mul (double_mul 32 p) p) (32 * p' * p')"
    by (rule rel_err_double_mul [OF d1 ep]) auto
  have d3: "rel_err 5 (double_add 1 (double_mul (double_mul 32 p) p)) (1 + 32 * p' * p')"
    by (rule rel_err_double_add [OF c d2]) auto
  have c6: "rel_err 13
      (double_mul (double_mul (double_mul 3 (double_sqrt (double_div (double_mul 3 p) 8))) p)
         (double_add 1 (double_mul (double_mul 32 p) p)))
      (3 * sqrt (3 * p' / 8) * p' * (1 + 32 * p' * p'))"
    by (rule rel_err_double_mul [OF c5 d3]) auto
  have c7: "rel_err 16
      (double_mul (double_mul 4 R)
         (double_mul (double_mul (double_mul 3 (double_sqrt (double_div (double_mul 3 p) 8))) p)
            (double_add 1 (double_mul (double_mul 32 p) p))))
      (4 * R' * (3 * sqrt (3 * p' / 8) * p' * (1 + 32 * p' * p')))"
    by (rule rel_err_double_mul [OF t c6]) auto
  have den: "rel_err 17
      (double_add (double_mul R (double_sqrt (double_div (double_mul 2 p) 3)))
         (double_mul (double_mul 4 R)
            (double_mul (double_mul (double_mul 3 (double_sqrt (double_div (double_mul 3 p) 8))) p)
               (double_add 1 (double_mul (double_mul 32 p) p)))))
      (R' * sqrt (2 * p' / 3) + 4 * R' * (3 * sqrt (3 * p' / 8) * p' * (1 + 32 * p' * p')))"
    by (rule rel_err_double_add [OF a4 c7]) auto
  have X: "rel_err 18
      (double_div 1000
        (double_add (double_mul R (double_sqrt (double_div (double_mul 2 p) 3)))
           (double_mul (double_mul 4 R)
              (double_mul (double_mul (double_mul 3 (double_sqrt (double_div (double_mul 3 p) 8))) p)
                 (double_add 1 (double_mul (double_mul 32 p) p))))))
      (1000 / (R' * sqrt (2 * p' / 3) + 4 * R' * (3 * sqrt (3 * p' / 8) * p' * (1 + 32 * p' * p'))))"
    by (rule rel_err_double_div [OF c den]) auto
  have Y: "rel_err 19
      (double_mul
        (double_div 1000
          (double_add (double_mul R (double_sqrt (double_div (double_mul 2 p) 3)))
             (double_mul (double_mul 4 R)
                (double_mul (double_mul (double_mul 3 (double_sqrt (double_div (double_mul 3 p) 8))) p)
                   (double_add 1 (double_mul (double_mul 32 p) p)))))) 8)
      (1000 / (R' * sqrt (2 * p' / 3) + 4 * R' * (3 * sqrt (3 * p' / 8) * p' * (1 + 32 * p' * p')))
        * 8)"
    by (rule rel_err_double_mul [OF X c]) auto
  have s: "spec_tfrc_bps (unat rtt) (unat loss) =
      1000 / (R' * sqrt (2 * p' / 3) + 4 * R' * (3 * sqrt (3 * p' / 8) * p' * (1 + 32 * p' * p')))
        * 8"
    by (simp add: spec_tfrc_bps_def Let_def R'_def p'_def r_def l_def power2_eq_square)
  have "CalcTfrcBps oor rtt loss = uint32_of_double oor
      (double_mul
        (double_div 1000
          (double_add (double_mul R (double_sqrt (double_div (double_mul 2 p) 3)))
             (double_mul (double_mul 4 R)
                (double_mul (double_mul (double_mul 3 (double_sqrt (double_div (double_mul 3 p) 8))) p)
                   (double_add 1 (double_mul (double_mul 32 p) p)))))) 8)"
    using assms
    by (simp add: CalcTfrcBps_def Let_def kAvgPacketSizeBytes_def R_def p_def r_def l_def)
  then show ?thesis using Y unfolding s by blast
qed

lemma spec_tfrc_bps_bounds:
  assumes "0 < rtt_ms" and "0 < loss_q8"
  shows "0 < spec_tfrc_bps rtt_ms loss_q8" and "spec_tfrc_bps rtt_ms loss_q8 \<le> 160000000"
proof -
  define R where "R = real rtt_ms / 1000"
  define p where "p = real loss_q8 / 255"
  have R: "1 / 1000 \<le> R" using assms(1) by (simp add: R_def)
  have p: "1 / 255 \<le> p" using assms(2) by (simp add: p_def)
  have p0: "0 < p" using p by simp
  have "(1 / 20)\<^sup>2 \<le> 2 * p / 3" using p by (simp add: power2_eq_square)
  then have q: "1 / 20 \<le> sqrt (2 * p / 3)" by (rule real_le_rsqrt)
  have "(1 / 1000) * (1 / 20) \<le> R * sqrt (2 * p / 3)"
    using R q by (intro mult_mono) auto
  moreover have "0 \<le> 4 * R * (3 * sqrt (3 * p / 8) * p * (1 + 32 * p\<^sup>2))"
    using R p0 by (intro mult_nonneg_nonneg) auto
  ultimately have d: "1 / 20000 \<le> R * sqrt (2 * p / 3) + 4 * R * (3 * sqrt (3 * p / 8) * p * (1 + 32 * p\<^sup>2))"
    by linarith
  define D where "D = R * sqrt (2 * p / 3) + 4 * R * (3 * sqrt (3 * p / 8) * p * (1 + 32 * p\<^sup>2))"
  have s: "spec_tfrc_bps rtt_ms loss_q8 = 8000 / D"
    by (simp add: spec_tfrc_bps_def Let_def R_def p_def D_def)
  have D: "1 / 20000 \<le> D" using d by (simp add: D_def)
  then have D0: "0 < D" by simp
  show "0 < spec_tfrc_bps rtt_ms loss_q8" unfolding s using D0 by simp
  have "8000 / D \<le> 8000 / (1 / 20000)" using D by (intro divide_left_mono) auto
  then show "spec_tfrc_bps rtt_ms loss_q8 \<le> 160000000" unfolding s by simp
qed

lemma CalcTfrcBps_error:
  assumes "rtt \<noteq> 0" and "loss \<noteq> 0"
  shows "spec_tfrc_bps (unat rtt) (unat loss) - 1 - 1 / 10 ^ 5
           < real (unat (CalcTfrcBps oor rtt loss))"
    and "real (unat (CalcTfrcBps oor rtt loss))
           \<le> spec_tfrc_bps (unat rtt) (unat loss) + 1 / 10 ^ 5"
proof -
  define S where "S = spec_tfrc_bps (unat rtt) (unat loss)"
  from CalcTfrcBps_rel_err [OF assms, of oor] obtain Y where
    Y: "CalcTfrcBps oor rtt loss = uint32_of_double oor Y" "rel_err 19 Y S"
    unfolding S_def by blast
  have "0 < unat rtt" "0 < unat loss" using assms by (simp_all add: unat_gt_0)
  then have S: "0 < S" "S \<le> 160000000"
    unfolding S_def using spec_tfrc_bps_bounds [of "unat rtt" "unat loss"] by simp_all
  define B where "B = ulp_factor ^ 19"
  have B: "1 \<le> B" "B \<le> 1 + 1 / 10 ^ 14"
    unfolding B_def using ulp_power_ge_1 [of 19] ulp_power_19 by simp_all
  have y: "S / B \<le> Y" "Y \<le> S * B" using Y(2) by (simp_all add: rel_err_def B_def)
  have "S * B \<le> S * (1 + 1 / 10 ^ 14)" using S(1) B(2) by (intro mult_left_mono) auto
  also have "\<dots> = S + S / 10 ^ 14" by (simp add: algebra_simps)
  also have "\<dots> \<le> S + 160000000 / 10 ^ 14" using S(2) by (simp add: divide_right_mono)
  finally have u: "Y \<le> S + 1 / 10 ^ 5" using y(2) by simp
  have "S - S / 10 ^ 14 = S * (1 - 1 / 10 ^ 14)" by (simp add: algebra_simps)
  also have "\<dots> \<le> S / B"
  proof -
    have "(1 - 1 / 10 ^ 14) * B \<le> (1 - 1 / 10 ^ 14) * (1 + 1 / 10 ^ 14)"
      using B(2) by (intro mult_left_mono) auto
    also have "\<dots> \<le> (1::real)" by simp
    finally have "1 - 1 / 10 ^ 14 \<le> 1 / B" using B(1) by (simp add: field_simps)
    then have "S * (1 - 1 / 10 ^ 14) \<le> S * (1 / B)" using S(1) by (intro mult_left_mono) auto
    then show ?thesis by simp
  qed
  finally have "S - S / 10 ^ 14 \<le> Y" using y(1) by linarith
  moreover have "S / 10 ^ 14 \<le> 160000000 / 10 ^ 14" using S(2) by (simp add: divide_right_mono)
  ultimately have lo: "S - 1 / 10 ^ 5 \<le> Y" by simp
  have Y0: "0 \<le> Y" using rel_err_pos [OF Y(2)] by simp
  have Y1: "Y < 2 ^ 32" using u S(2) by simp
  have f0: "0 \<le> \<lfloor>Y\<rfloor>" using Y0 by simp
  have f1: "\<lfloor>Y\<rfloor> < 2 ^ 32" using Y1 by (simp add: floor_less_iff)
  have "CalcTfrcBps oor rtt loss = word_of_int \<lfloor>Y\<rfloor>"
    unfolding Y(1) using Y0 f0 f1 by (simp add: uint32_of_double_def truncate_double_def)
  then have "uint (CalcTfrcBps oor rtt loss) = \<lfloor>Y\<rfloor>"
    using f0 f1 by (simp add: uint_word_of_int)
  then have "real (unat (CalcTfrcBps oor rtt loss)) = of_int \<lfloor>Y\<rfloor>"
    by (metis of_int_of_nat_eq of_nat_unat)
  moreover have "of_int \<lfloor>Y\<rfloor> \<le> Y" "Y < of_int \<lfloor>Y\<rfloor> + 1" by linarith+
  ultimately show "spec_tfrc_bps (unat rtt) (unat loss) - 1 - 1 / 10 ^ 5
           < real (unat (CalcTfrcBps oor rtt loss))"
    and "real (unat (CalcTfrcBps oor rtt loss))
           \<le> spec_tfrc_bps (unat rtt) (unat loss) + 1 / 10 ^ 5"
    using u lo unfolding S_def [symmetric] by linarith+
qed

lemma CalcTfrcBps_50_30: "CalcTfrcBps oor 50 30 = 226013"
proof -
  define R :: real where "R = 7205759403792794 / 2 ^ 57"
  define t :: real where "t = 7205759403792794 / 2 ^ 55"
  define p :: real where "p = 8477364004462110 / 2 ^ 56"
  define a1 :: real where "a1 = 8477364004462110 / 2 ^ 55"
  define a2 :: real where "a2 = 5651576002974740 / 2 ^ 56"
  define a3 :: real where "a3 = 5045040691714297 / 2 ^ 54"
  define a4 :: real where "a4 = 8072065106742876 / 2 ^ 59"
  define c1 :: real where "c1 = 6358023003346582 / 2 ^ 54"
  define c2 :: real where "c2 = 6358023003346582 / 2 ^ 57"
  define c3 :: real where "c3 = 7567561037571446 / 2 ^ 55"
  define c4 :: real where "c4 = 5675670778178584 / 2 ^ 53"
  define c5 :: real where "c5 = 5341807791226903 / 2 ^ 56"
  define d1 :: real where "d1 = 8477364004462110 / 2 ^ 51"
  define d2 :: real where "d2 = 7978695533611398 / 2 ^ 54"
  define d3 :: real where "d3 = 6498273510773346 / 2 ^ 52"
  define c6 :: real where "c6 = 7707729581112868 / 2 ^ 56"
  define c7 :: real where "c7 = 6166183664890295 / 2 ^ 58"
  define den :: real where "den = 5101108109130866 / 2 ^ 57"
  define X :: real where "X = 7765779593305203 / 2 ^ 38"
  define Y :: real where "Y = 7765779593305203 / 2 ^ 35"
  have R: "double_div 50 1000 = R"
    unfolding double_div_def R_def using fl_eqI [of "50 / 1000" 57 7205759403792794]
    by simp
  have t: "double_mul 4 R = t"
    unfolding double_mul_def t_def using fl_eqI [of "4 * R" 55 7205759403792794]
    by (simp add: R_def)
  have p: "double_div 30 255 = p"
    unfolding double_div_def p_def using fl_eqI [of "30 / 255" 56 8477364004462110]
    by simp
  have a1: "double_mul 2 p = a1"
    unfolding double_mul_def a1_def using fl_eqI [of "2 * p" 55 8477364004462110]
    by (simp add: p_def)
  have a2: "double_div a1 3 = a2"
    unfolding double_div_def a2_def using fl_eqI [of "a1 / 3" 56 5651576002974740]
    by (simp add: a1_def)
  have a3: "double_sqrt a2 = a3"
    unfolding a3_def using double_sqrt_eqI [of 5045040691714297 "a2" 54]
    by (simp add: power2_eq_square a2_def)
  have a4: "double_mul R a3 = a4"
    unfolding double_mul_def a4_def using fl_eqI [of "R * a3" 59 8072065106742876]
    by (simp add: R_def a3_def)
  have c1: "double_mul 3 p = c1"
    unfolding double_mul_def c1_def using fl_eqI [of "3 * p" 54 6358023003346582]
    by (simp add: p_def)
  have c2: "double_div c1 8 = c2"
    unfolding double_div_def c2_def using fl_eqI [of "c1 / 8" 57 6358023003346582]
    by (simp add: c1_def)
  have c3: "double_sqrt c2 = c3"
    unfolding c3_def using double_sqrt_eqI [of 7567561037571446 "c2" 55]
    by (simp add: power2_eq_square c2_def)
  have c4: "double_mul 3 c3 = c4"
    unfolding double_mul_def c4_def using fl_eqI [of "3 * c3" 53 5675670778178584]
    by (simp add: c3_def)
  have c5: "double_mul c4 p = c5"
    unfolding double_mul_def c5_def using fl_eqI [of "c4 * p" 56 5341807791226903]
    by (simp add: c4_def p_def)
  have d1: "double_mul 32 p = d1"
    unfolding double_mul_def d1_def using fl_eqI [of "32 * p" 51 8477364004462110]
    by (simp add: p_def)
  have d2: "double_mul d1 p = d2"
    unfolding double_mul_def d2_def using fl_eqI [of "d1 * p" 54 7978695533611398]
    by (simp add: d1_def p_def)
  have d3: "double_add 1 d2 = d3"
    unfolding double_add_def d3_def using fl_eqI [of "1 + d2" 52 6498273510773346]
    by (simp add: d2_def)
  have c6: "double_mul c5 d3 = c6"
    unfolding double_mul_def c6_def using fl_eqI [of "c5 * d3" 56 7707729581112868]
    by (simp add: c5_def d3_def)
  have c7: "double_mul t c6 = c7"
    unfolding double_mul_def c7_def using fl_eqI [of "t * c6" 58 6166183664890295]
    by (simp add: t_def c6_def)
  have den: "double_add a4 c7 = den"
    unfolding double_add_def den_def using fl_eqI [of "a4 + c7" 57 5101108109130866]
    by (simp add: a4_def c7_def)
  have X: "double_div 1000 den = X"
    unfolding double_div_def X_def using fl_eqI [of "1000 / den" 38 7765779593305203]
    by (simp add: den_def)
  have Y: "double_mul X 8 = Y"
    unfolding double_mul_def Y_def using fl_eqI [of "X * 8" 35 7765779593305203]
    by (simp add: X_def)
  have Z: "uint32_of_double oor Y = 226013"
    by (simp add: Y_def uint32_of_double_def truncate_double_def)
  show ?thesis
    by (simp add: CalcTfrcBps_def Let_def kAvgPacketSizeBytes_def R t p a1 a2 a3 a4 c1 c2 c3 c4 c5 d1 d2 d3 c6 c7 den X Y Z)
qed

section \<open>The bounds clamp\<close>

lemma Cap_eq:
  "CapBitrateToThresholds s =
     (let capped = min (max_bitrate_configured s)
                     (if 0 < bwe_incoming s then min (bitrate s) (bwe_incoming s) else bitrate s)
      in s\<lparr>bitrate := max (min_bitrate_configured s) capped,
            warnings := (if capped < min_bitrate_configured s
                         then warnings s @ [(min_bitrate_configured s div 1000, capped div 1000)]
                         else warnings s)\<rparr>)"
  by (auto simp: CapBitrateToThresholds_def Let_def max_def min_def)

lemma Cap_fields [simp]:
  "min_bitrate_configured (CapBitrateToThresholds s) = min_bitrate_configured s"
  "max_bitrate_configured (CapBitrateToThresholds s) = max_bitrate_configured s"
  "bwe_incoming (CapBitrateToThresholds s) = bwe_incoming s"
  "time_last_increase (CapBitrateToThresholds s) = time_last_increase s"
  "time_last_decrease (CapBitrateToThresholds s) = time_last_decrease s"
  "last_fraction_loss (CapBitrateToThresholds s) = last_fraction_loss s"
  "last_round_trip_time (CapBitrateToThresholds s) = last_round_trip_time s"
  "accumulate_lost_packets_Q8 (CapBitrateToThresholds s) = accumulate_lost_packets_Q8 s"
  "accumulate_expected_packets (CapBitrateToThresholds s) = accumulate_expected_packets s"
  by (simp_all add: Cap_eq Let_def)

lemma Cap_within: "within_thresholds (CapBitrateToThresholds s)"
  unfolding within_thresholds_def Cap_eq Let_def
  by (auto simp: max_def min_def word_gt_0)

lemma Cap_within_bitrate:
  "within_thresholds s \<Longrightarrow> bitrate (CapBitrateToThresholds s) = bitrate s"
  by (auto simp: within_thresholds_def Cap_eq Let_def max_def min_def word_gt_0)

lemma within_spec_bounds:
  assumes "within_thresholds s"
    and "min_bitrate_configured s \<le> max_bitrate_configured s"
    and "bwe_incoming s = 0 \<or> min_bitrate_configured s \<le> bwe_incoming s"
  shows "spec_bounds s"
  using assms unfolding within_thresholds_def spec_bounds_def by auto

text \<open>
  Claim C5. From the bit rate \<open>b\<close> it finds, the clamp computes
  \<open>max min_bitrate_configured (min max_bitrate_configured (if 0 < hint then min b hint else b))\<close>:
  the cap to a positive receiver estimate, then the cap to the configured maximum, then
  the raise to the configured minimum, which therefore wins over both. A warning with
  the minimum and the capped rate, both in kbps, is recorded exactly when the raise
  applies; the call completes all the same, and no other field changes.
\<close>

theorem clamp_order:
  "CapBitrateToThresholds s =
     s\<lparr>bitrate :=
          max (min_bitrate_configured s)
            (min (max_bitrate_configured s)
               (if 0 < bwe_incoming s then min (bitrate s) (bwe_incoming s) else bitrate s)),
       warnings :=
          (if min (max_bitrate_configured s)
                (if 0 < bwe_incoming s then min (bitrate s) (bwe_incoming s) else bitrate s)
              < min_bitrate_configured s
           then warnings s @
                  [(min_bitrate_configured s div 1000,
                    min (max_bitrate_configured s)
                      (if 0 < bwe_incoming s then min (bitrate s) (bwe_incoming s)
                       else bitrate s) div 1000)]
           else warnings s)\<rparr>"
  by (simp add: Cap_eq Let_def)

text \<open>
  Claim C10. \<^verbatim>\<open>UpdateReceiverEstimate\<close> can raise the bit rate: called while the bit
  rate is below the configured minimum, it sets the bit rate to exactly that minimum,
  whatever the bandwidth it is given.
\<close>

theorem receiver_estimate_raises_to_min:
  "bitrate s < min_bitrate_configured s \<Longrightarrow>
     bitrate (UpdateReceiverEstimate bandwidth s) = min_bitrate_configured s \<and>
     min_bitrate_configured (UpdateReceiverEstimate bandwidth s) = min_bitrate_configured s \<and>
     bitrate s < bitrate (UpdateReceiverEstimate bandwidth s)"
  by (auto simp: UpdateReceiverEstimate_def Cap_eq Let_def max_def min_def)

theorem receiver_estimate_raises_to_min_witness:
  "bitrate (SetSendBitrate 10 (SetMinMaxBitrate 50000 1000000 (Constructor :: 32 estimation)))
     < min_bitrate_configured
         (SetSendBitrate 10 (SetMinMaxBitrate 50000 1000000 (Constructor :: 32 estimation))) \<and>
   bitrate (UpdateReceiverEstimate 20
     (SetSendBitrate 10 (SetMinMaxBitrate 50000 1000000 (Constructor :: 32 estimation))))
     = 50000"
  using receiver_estimate_raises_to_min
    [of "SetSendBitrate 10 (SetMinMaxBitrate 50000 1000000 (Constructor :: 32 estimation))" 20]
  by (simp add: SetSendBitrate_def SetMinMaxBitrate_def Constructor_def)

section \<open>The branches of the update functions\<close>

lemma loss_above_26:
  fixes l :: "8 word"
  assumes "26 < l"
  shows "\<not> l \<le> 5" and "\<not> l \<le> 26"
  using assms by (auto simp: not_le elim: less_trans [rotated])

lemma UpdateEstimate_increase:
  assumes "last_fraction_loss s \<le> 5" and "1000 \<le> now_ms - time_last_increase s"
  shows "UpdateEstimate oor now_ms s =
     CapBitrateToThresholds
       (s\<lparr>time_last_increase := now_ms, bitrate := increase_rate oor (bitrate s)\<rparr>)"
  using assms by (simp add: UpdateEstimate_def kBweIncreaseIntervalMs_def)

lemma UpdateEstimate_no_increase:
  assumes "last_fraction_loss s \<le> 5" and "now_ms - time_last_increase s < 1000"
  shows "UpdateEstimate oor now_ms s = CapBitrateToThresholds s"
  using assms by (simp add: UpdateEstimate_def kBweIncreaseIntervalMs_def not_le [symmetric])


lemma UpdateEstimate_decrease:
  assumes "26 < last_fraction_loss s"
    and "300 + ucast (last_round_trip_time s) \<le> now_ms - time_last_decrease s"
  shows "UpdateEstimate oor now_ms s =
     CapBitrateToThresholds
       (s\<lparr>time_last_decrease := now_ms,
           bitrate :=
             max (word_of_nat (unat (bitrate s) * (512 - unat (last_fraction_loss s)) div 512))
               (CalcTfrcBps oor (ucast (last_round_trip_time s)) (last_fraction_loss s))\<rparr>)"
  using loss_above_26 [OF assms(1)] assms(2)
  by (simp add: UpdateEstimate_def kBweDecreaseIntervalMs_def reduce_rate_exact)


lemma UpdateEstimate_Cap:
  "\<exists>s'. UpdateEstimate oor now_ms s = CapBitrateToThresholds s' \<and>
     min_bitrate_configured s' = min_bitrate_configured s \<and>
     max_bitrate_configured s' = max_bitrate_configured s \<and>
     bwe_incoming s' = bwe_incoming s \<and>
     last_fraction_loss s' = last_fraction_loss s \<and>
     last_round_trip_time s' = last_round_trip_time s \<and>
     accumulate_lost_packets_Q8 s' = accumulate_lost_packets_Q8 s \<and>
     accumulate_expected_packets s' = accumulate_expected_packets s"
  unfolding UpdateEstimate_def by (intro exI conjI, rule refl) auto

lemma UpdateEstimate_fields [simp]:
  "min_bitrate_configured (UpdateEstimate oor now_ms s) = min_bitrate_configured s"
  "max_bitrate_configured (UpdateEstimate oor now_ms s) = max_bitrate_configured s"
  "bwe_incoming (UpdateEstimate oor now_ms s) = bwe_incoming s"
  "last_fraction_loss (UpdateEstimate oor now_ms s) = last_fraction_loss s"
  "last_round_trip_time (UpdateEstimate oor now_ms s) = last_round_trip_time s"
  "accumulate_lost_packets_Q8 (UpdateEstimate oor now_ms s) = accumulate_lost_packets_Q8 s"
  "accumulate_expected_packets (UpdateEstimate oor now_ms s) = accumulate_expected_packets s"
  using UpdateEstimate_Cap [of oor now_ms s] by auto

lemma UpdateEstimate_within: "within_thresholds (UpdateEstimate oor now_ms s)"
  unfolding UpdateEstimate_def by (rule Cap_within)


lemma URB_commit:
  assumes "0 < n" and "20 \<le> accumulate_expected_packets s + n"
  shows "UpdateReceiverBlock oor f rtt n now_ms s =
     UpdateEstimate oor now_ms
       (s\<lparr>last_round_trip_time := ucast rtt,
          last_fraction_loss :=
            word_of_int ((accumulate_lost_packets_Q8 s + uint f * n) sdiv
                         (accumulate_expected_packets s + n)),
          accumulate_lost_packets_Q8 := 0,
          accumulate_expected_packets := 0\<rparr>)"
  using assms by (simp add: UpdateReceiverBlock_def Let_def kLimitNumPackets_def)

lemma URB_no_packets:
  assumes "n \<le> 0"
  shows "UpdateReceiverBlock oor f rtt n now_ms s =
     UpdateEstimate oor now_ms (s\<lparr>last_round_trip_time := ucast rtt\<rparr>)"
  using assms by (simp add: UpdateReceiverBlock_def Let_def not_less [symmetric])

lemma URB_bounds [simp]:
  "min_bitrate_configured (UpdateReceiverBlock oor f rtt n now_ms s) = min_bitrate_configured s"
  "max_bitrate_configured (UpdateReceiverBlock oor f rtt n now_ms s) = max_bitrate_configured s"
  "bwe_incoming (UpdateReceiverBlock oor f rtt n now_ms s) = bwe_incoming s"
  by (simp_all add: UpdateReceiverBlock_def Let_def)

lemma URB_zero_loss:
  assumes "accumulate_lost_packets_Q8 s = 0" and "0 < n"
    and "20 \<le> accumulate_expected_packets s + n"
  shows "UpdateReceiverBlock oor 0 rtt n now_ms s =
     UpdateEstimate oor now_ms
       (s\<lparr>last_round_trip_time := ucast rtt, last_fraction_loss := 0,
          accumulate_lost_packets_Q8 := 0, accumulate_expected_packets := 0\<rparr>)"
  using assms by (simp add: URB_commit signed_divide_int_def)

lemma URB_not_absorbed_within:
  assumes "\<not> absorbed n s"
  shows "within_thresholds (UpdateReceiverBlock oor f rtt n now_ms s)"
proof (cases "0 < n")
  case True
  then have "20 \<le> accumulate_expected_packets s + n"
    using assms by (simp add: absorbed_def kLimitNumPackets_def)
  then show ?thesis using True by (simp add: URB_commit UpdateEstimate_within)
next
  case False
  then show ?thesis by (simp add: URB_no_packets UpdateEstimate_within)
qed

lemma setter_absorbed [simp]:
  "absorbed n (SetSendBitrate b s) = absorbed n s"
  "absorbed n (SetMinMaxBitrate lo hi s) = absorbed n s"
  "absorbed n (SetMinBitrate lo s) = absorbed n s"
  by (simp_all add: absorbed_def SetSendBitrate_def SetMinMaxBitrate_def SetMinBitrate_def)

lemma configured_state:
  "SetMinMaxBitrate lo hi (SetSendBitrate b (Constructor :: ('r::len) estimation)) =
     \<lparr>accumulate_lost_packets_Q8 = 0, accumulate_expected_packets = 0,
      bitrate = b, min_bitrate_configured = lo, max_bitrate_configured = hi,
      last_fraction_loss = 0, last_round_trip_time = 0, bwe_incoming = 0,
      time_last_increase = 0, time_last_decrease = 0, warnings = []\<rparr>"
  by (simp add: SetMinMaxBitrate_def SetSendBitrate_def Constructor_def)

section \<open>Bounds after a call\<close>

text \<open>
  Claim C1 says that after every call of \<^verbatim>\<open>UpdateReceiverEstimate\<close> or
  \<^verbatim>\<open>UpdateReceiverBlock\<close> the bit rate lies between the configured minimum and
  maximum and is at most a positive receiver estimate (\<open>spec_bounds\<close>). Three call
  sequences show that this is not so: a minimum configured above the maximum, a minimum
  above the receiver estimate (in both the raise to the minimum comes last and wins), and
  a report that is absorbed before it reaches the clamp.
\<close>

theorem spec_bounds_counterexample:
  "bitrate (run (\<lambda>x. 0) [CallSetMinMaxBitrate 100 50, CallUpdateReceiverEstimate 0]
      (Constructor :: 32 estimation)) = 100 \<and>
   \<not> spec_bounds (run (\<lambda>x. 0) [CallSetMinMaxBitrate 100 50, CallUpdateReceiverEstimate 0]
      (Constructor :: 32 estimation)) \<and>
   bitrate (run (\<lambda>x. 0) [CallSetMinMaxBitrate 100 1000, CallUpdateReceiverEstimate 60]
      (Constructor :: 32 estimation)) = 100 \<and>
   \<not> spec_bounds (run (\<lambda>x. 0) [CallSetMinMaxBitrate 100 1000, CallUpdateReceiverEstimate 60]
      (Constructor :: 32 estimation)) \<and>
   bitrate (run (\<lambda>x. 0)
      [CallSetMinMaxBitrate 50000 1000000, CallSetSendBitrate 10,
       CallUpdateReceiverBlock 0 50 5 0] (Constructor :: 32 estimation)) = 10 \<and>
   \<not> spec_bounds (run (\<lambda>x. 0)
      [CallSetMinMaxBitrate 50000 1000000, CallSetSendBitrate 10,
       CallUpdateReceiverBlock 0 50 5 0] (Constructor :: 32 estimation))"
  by (simp add: spec_bounds_def Constructor_def SetMinMaxBitrate_def SetSendBitrate_def
      UpdateReceiverEstimate_def UpdateReceiverBlock_def Cap_eq Let_def kLimitNumPackets_def)

text \<open>
  Claim C1, amended. After any sequence of calls, a call of \<^verbatim>\<open>UpdateReceiverEstimate\<close>
  or of \<^verbatim>\<open>UpdateReceiverBlock\<close> that is not absorbed leaves the bit rate within the
  thresholds: at least the configured minimum, and at most the configured maximum and a
  positive receiver estimate unless it equals the minimum. When the minimum is neither
  above the maximum nor above a positive receiver estimate, these are the bounds of the
  specification.
\<close>

theorem bounds_after_update:
  assumes "s = run oor cs Constructor"
    and "c = CallUpdateReceiverEstimate bandwidth \<or>
         (c = CallUpdateReceiverBlock fraction_loss rtt n now_ms \<and> \<not> absorbed n s)"
  shows "within_thresholds (exec oor c s) \<and>
         (consistent_thresholds (exec oor c s) \<longrightarrow> spec_bounds (exec oor c s))"
proof -
  have "within_thresholds (exec oor c s)"
    using assms(2)
    by (auto simp: UpdateReceiverEstimate_def Cap_within URB_not_absorbed_within)
  then show ?thesis
    by (auto simp: consistent_thresholds_def intro: within_spec_bounds)
qed

theorem bounds_after_update_witness:
  "within_thresholds
     (exec (\<lambda>x. 0) (CallUpdateReceiverEstimate 0)
        (run (\<lambda>x. 0) [CallSetMinMaxBitrate 50000 1000000, CallSetSendBitrate 2000000]
           (Constructor :: 32 estimation))) \<and>
   spec_bounds
     (exec (\<lambda>x. 0) (CallUpdateReceiverEstimate 0)
        (run (\<lambda>x. 0) [CallSetMinMaxBitrate 50000 1000000, CallSetSendBitrate 2000000]
           (Constructor :: 32 estimation))) \<and>
   bitrate
     (exec (\<lambda>x. 0) (CallUpdateReceiverEstimate 0)
        (run (\<lambda>x. 0) [CallSetMinMaxBitrate 50000 1000000, CallSetSendBitrate 2000000]
           (Constructor :: 32 estimation))) = 1000000"
  using bounds_after_update
    [OF refl, of "CallUpdateReceiverEstimate 0" 0 0 0 0 0 "\<lambda>x. 0"
       "[CallSetMinMaxBitrate 50000 1000000, CallSetSendBitrate 2000000]", where ?'a = 32]
  by (simp add: consistent_thresholds_def Constructor_def SetMinMaxBitrate_def
      SetSendBitrate_def UpdateReceiverEstimate_def Cap_eq Let_def)

text \<open>
  Claim C6 says that the clamp runs after every change of the bit rate or of the bounds,
  so that the bit rate is within the thresholds when \<^verbatim>\<open>SetSendBitrate\<close>,
  \<^verbatim>\<open>SetMinMaxBitrate\<close> or \<^verbatim>\<open>SetMinBitrate\<close> returns. None of the three setters
  calls the clamp: on a new object each of them leaves a bit rate outside the thresholds.
\<close>

theorem setters_counterexample:
  "bitrate (SetMinMaxBitrate 50000 1000000 (Constructor :: 32 estimation)) = 0 \<and>
   \<not> within_thresholds (SetMinMaxBitrate 50000 1000000 (Constructor :: 32 estimation)) \<and>
   bitrate (SetMinBitrate 50000 (Constructor :: 32 estimation)) = 0 \<and>
   \<not> within_thresholds (SetMinBitrate 50000 (Constructor :: 32 estimation)) \<and>
   bitrate (SetSendBitrate 2000000
      (SetMinMaxBitrate 50000 1000000 (Constructor :: 32 estimation))) = 2000000 \<and>
   \<not> within_thresholds (SetSendBitrate 2000000
      (SetMinMaxBitrate 50000 1000000 (Constructor :: 32 estimation)))"
  by (simp add: within_thresholds_def Constructor_def SetMinMaxBitrate_def SetSendBitrate_def
      SetMinBitrate_def)

text \<open>
  Claim C6, amended. The setters are plain assignments and none of them clamps:
  \<^verbatim>\<open>SetSendBitrate\<close> stores its argument in the bit rate as it is,
  \<^verbatim>\<open>SetMinMaxBitrate\<close> replaces the configured minimum and maximum and
  \<^verbatim>\<open>SetMinBitrate\<close> the configured minimum, both leaving the bit rate as it was and
  recording no warning. The clamp runs in the next call of \<^verbatim>\<open>UpdateReceiverEstimate\<close>,
  which sets the bit rate to the clamp of the stored rate under the bounds the setters
  left, or of \<^verbatim>\<open>UpdateReceiverBlock\<close> with a report that is not absorbed; after either
  the bit rate is within the thresholds, which are those the setters stored.
\<close>

theorem setters_store_without_clamp:
  "SetSendBitrate b s = s\<lparr>bitrate := b\<rparr> \<and>
   SetMinMaxBitrate lo hi s = s\<lparr>min_bitrate_configured := lo, max_bitrate_configured := hi\<rparr> \<and>
   SetMinBitrate lo s = s\<lparr>min_bitrate_configured := lo\<rparr> \<and>
   bitrate (SetMinMaxBitrate lo hi s) = bitrate s \<and>
   warnings (SetMinMaxBitrate lo hi s) = warnings s \<and>
   bitrate (SetMinBitrate lo s) = bitrate s \<and>
   warnings (SetMinBitrate lo s) = warnings s \<and>
   min_bitrate_configured (SetMinMaxBitrate lo hi s) = lo \<and>
   max_bitrate_configured (SetMinMaxBitrate lo hi s) = hi \<and>
   min_bitrate_configured (SetMinBitrate lo s) = lo \<and>
   max_bitrate_configured (SetMinBitrate lo s) = max_bitrate_configured s \<and>
   bitrate (UpdateReceiverEstimate bandwidth (SetSendBitrate b s)) =
     max (min_bitrate_configured s)
       (min (max_bitrate_configured s) (if 0 < bandwidth then min b bandwidth else b)) \<and>
   bitrate (UpdateReceiverEstimate bandwidth (SetMinMaxBitrate lo hi s)) =
     max lo (min hi (if 0 < bandwidth then min (bitrate s) bandwidth else bitrate s)) \<and>
   bitrate (UpdateReceiverEstimate bandwidth (SetMinBitrate lo s)) =
     max lo
       (min (max_bitrate_configured s)
          (if 0 < bandwidth then min (bitrate s) bandwidth else bitrate s)) \<and>
   within_thresholds (UpdateReceiverEstimate bandwidth (SetSendBitrate b s)) \<and>
   within_thresholds (UpdateReceiverEstimate bandwidth (SetMinMaxBitrate lo hi s)) \<and>
   within_thresholds (UpdateReceiverEstimate bandwidth (SetMinBitrate lo s)) \<and>
   (\<not> absorbed n s \<longrightarrow>
      within_thresholds (UpdateReceiverBlock oor fraction_loss rtt n now_ms (SetSendBitrate b s)) \<and>
      within_thresholds
        (UpdateReceiverBlock oor fraction_loss rtt n now_ms (SetMinMaxBitrate lo hi s)) \<and>
      within_thresholds (UpdateReceiverBlock oor fraction_loss rtt n now_ms (SetMinBitrate lo s)) \<and>
      min_bitrate_configured
        (UpdateReceiverBlock oor fraction_loss rtt n now_ms (SetMinMaxBitrate lo hi s)) = lo \<and>
      max_bitrate_configured
        (UpdateReceiverBlock oor fraction_loss rtt n now_ms (SetMinMaxBitrate lo hi s)) = hi \<and>
      min_bitrate_configured
        (UpdateReceiverBlock oor fraction_loss rtt n now_ms (SetMinBitrate lo s)) = lo)"
proof -
  have setters:
    "SetSendBitrate b s = s\<lparr>bitrate := b\<rparr>"
    "SetMinMaxBitrate lo hi s = s\<lparr>min_bitrate_configured := lo, max_bitrate_configured := hi\<rparr>"
    "SetMinBitrate lo s = s\<lparr>min_bitrate_configured := lo\<rparr>"
    by (simp_all add: SetSendBitrate_def SetMinMaxBitrate_def SetMinBitrate_def)
  have clamped:
    "bitrate (UpdateReceiverEstimate bandwidth (SetSendBitrate b s)) =
       max (min_bitrate_configured s)
         (min (max_bitrate_configured s) (if 0 < bandwidth then min b bandwidth else b))"
    "bitrate (UpdateReceiverEstimate bandwidth (SetMinMaxBitrate lo hi s)) =
       max lo (min hi (if 0 < bandwidth then min (bitrate s) bandwidth else bitrate s))"
    "bitrate (UpdateReceiverEstimate bandwidth (SetMinBitrate lo s)) =
       max lo
         (min (max_bitrate_configured s)
            (if 0 < bandwidth then min (bitrate s) bandwidth else bitrate s))"
    by (simp_all add: setters UpdateReceiverEstimate_def Cap_eq Let_def)
  have within:
    "within_thresholds (UpdateReceiverEstimate bandwidth (SetSendBitrate b s))"
    "within_thresholds (UpdateReceiverEstimate bandwidth (SetMinMaxBitrate lo hi s))"
    "within_thresholds (UpdateReceiverEstimate bandwidth (SetMinBitrate lo s))"
    by (simp_all add: UpdateReceiverEstimate_def Cap_within)
  have reports:
    "within_thresholds (UpdateReceiverBlock oor fraction_loss rtt n now_ms (SetSendBitrate b s))"
    "within_thresholds
       (UpdateReceiverBlock oor fraction_loss rtt n now_ms (SetMinMaxBitrate lo hi s))"
    "within_thresholds (UpdateReceiverBlock oor fraction_loss rtt n now_ms (SetMinBitrate lo s))"
    if "\<not> absorbed n s"
    using that by (simp_all add: URB_not_absorbed_within)
  have bounds:
    "min_bitrate_configured
       (UpdateReceiverBlock oor fraction_loss rtt n now_ms (SetMinMaxBitrate lo hi s)) = lo"
    "max_bitrate_configured
       (UpdateReceiverBlock oor fraction_loss rtt n now_ms (SetMinMaxBitrate lo hi s)) = hi"
    "min_bitrate_configured
       (UpdateReceiverBlock oor fraction_loss rtt n now_ms (SetMinBitrate lo s)) = lo"
    by (simp_all add: setters)
  show ?thesis
    using setters clamped within reports bounds by simp
qed

theorem setters_store_without_clamp_witness:
  "\<not> absorbed 25 (Constructor :: 32 estimation) \<and>
   within_thresholds
     (UpdateReceiverBlock (\<lambda>x. 0) 0 50 25 1000
        (SetMinMaxBitrate 50000 1000000 (Constructor :: 32 estimation))) \<and>
   min_bitrate_configured
     (UpdateReceiverBlock (\<lambda>x. 0) 0 50 25 1000
        (SetMinMaxBitrate 50000 1000000 (Constructor :: 32 estimation))) = 50000 \<and>
   max_bitrate_configured
     (UpdateReceiverBlock (\<lambda>x. 0) 0 50 25 1000
        (SetMinMaxBitrate 50000 1000000 (Constructor :: 32 estimation))) = 1000000 \<and>
   bitrate (SetMinMaxBitrate 50000 1000000 (Constructor :: 32 estimation)) = 0 \<and>
   bitrate
     (UpdateReceiverEstimate 0
        (SetMinMaxBitrate 50000 1000000 (Constructor :: 32 estimation))) = 50000"
proof -
  note A = setters_store_without_clamp
    [of 0 "Constructor :: 32 estimation" 50000 1000000 0 25 "\<lambda>x. 0" 0 50 1000]
  note a4 = A [THEN conjunct2, THEN conjunct2, THEN conjunct2, THEN conjunct1]
  note a13 = A [THEN conjunct2, THEN conjunct2, THEN conjunct2, THEN conjunct2, THEN conjunct2, THEN conjunct2, THEN conjunct2, THEN conjunct2, THEN conjunct2, THEN conjunct2, THEN conjunct2, THEN conjunct2, THEN conjunct1]
  note a18 = A [THEN conjunct2, THEN conjunct2, THEN conjunct2, THEN conjunct2, THEN conjunct2, THEN conjunct2, THEN conjunct2, THEN conjunct2, THEN conjunct2, THEN conjunct2, THEN conjunct2, THEN conjunct2, THEN conjunct2, THEN conjunct2, THEN conjunct2, THEN conjunct2, THEN conjunct2, THEN mp]
  have n: "\<not> absorbed 25 (Constructor :: 32 estimation)"
    by (simp add: absorbed_def kLimitNumPackets_def Constructor_def)
  have b: "bitrate (SetMinMaxBitrate 50000 1000000 (Constructor :: 32 estimation)) = 0"
    unfolding a4 by (simp add: Constructor_def)
  have c: "bitrate
     (UpdateReceiverEstimate 0
        (SetMinMaxBitrate 50000 1000000 (Constructor :: 32 estimation))) = 50000"
    unfolding a13 by (simp add: Constructor_def)
  show ?thesis using a18 [OF n] n b c by blast
qed

section \<open>The loss accumulators\<close>

lemma sdiv_nonneg: "0 \<le> a \<Longrightarrow> 0 < b \<Longrightarrow> (a::int) sdiv b = a div b"
  by (simp add: signed_divide_int_def sgn_if)









lemma committed_loss:
  assumes "0 < n"
  shows "(word_of_int ((0 + uint f * n) sdiv (0 + n)) :: 8 word) = f"
proof -
  have "0 \<le> uint f * n" using assms by simp
  then have "(uint f * n) sdiv n = uint f * n div n" using assms by (intro sdiv_nonneg) auto
  also have "\<dots> = uint f" using assms by simp
  finally show ?thesis by (simp add: word_of_int_uint)
qed




section \<open>Cooldowns and rate updates\<close>

lemma unat_sub_mod:
  fixes a b :: "32 word"
  shows "unat (a - b) = (unat a + 2 ^ 32 - unat b) mod 2 ^ 32"
proof -
  have a: "unat a < 2 ^ 32" using unsigned_less [of a] by simp
  have b: "unat b < 2 ^ 32" using unsigned_less [of b] by simp
  show ?thesis
  proof (cases "unat b \<le> unat a")
    case True
    then have "unat a + 2 ^ 32 - unat b = (unat a - unat b) + 1 * 2 ^ 32" by simp
    then have "(unat a + 2 ^ 32 - unat b) mod 2 ^ 32 = (unat a - unat b) mod 2 ^ 32"
      by (simp only: mod_mult_self1)
    also have "\<dots> = unat a - unat b" using a by simp
    finally show ?thesis using True by (simp add: unat_sub_if_size word_size)
  next
    case False
    then have "unat a + 2 ^ 32 - unat b < 2 ^ 32" using b by simp
    then show ?thesis using False by (simp add: unat_sub_if_size word_size)
  qed
qed

lemma unat_interval_plus_rtt:
  fixes r :: "('r::len) word"
  shows "unat (300 + ucast r :: 32 word) = (300 + unat r) mod 2 ^ 32"
proof -
  have "unat (ucast r :: 32 word) = unat r mod 2 ^ 32"
    by (simp add: unsigned_ucast_eq take_bit_eq_mod)
  then show ?thesis by (simp add: unat_word_ariths mod_add_right_eq)
qed

lemma ucast_16_eq_0:
  fixes r :: "('r::len) word"
  assumes "2 ^ 16 dvd unat r"
  shows "(ucast r :: 16 word) = 0"
proof -
  have "unat (ucast r :: 16 word) = unat r mod 2 ^ 16"
    by (simp add: unsigned_ucast_eq take_bit_eq_mod)
  then have "unat (ucast r :: 16 word) = 0" using assms by (simp add: dvd_eq_mod_eq_0)
  then show ?thesis by (simp only: unsigned_eq_0_iff)
qed

lemma tfrc_le_clamped:
  fixes tfrc floored lo hi hint :: "32 word"
  assumes "tfrc \<le> floored"
  shows "tfrc \<le> max lo (min hi (if 0 < hint then min floored hint else floored)) \<longleftrightarrow>
         tfrc \<le> lo \<or> (tfrc \<le> hi \<and> (hint = 0 \<or> tfrc \<le> hint))"
  using assms by (auto simp: max_def min_def word_gt_0)

text \<open>
  Claim C3 says that the decreased bit rate never falls below the TFRC rate. The clamp
  runs after the floor: with a receiver estimate of 150000, a report with a loss of 30
  and a round-trip time of 50 triggers a decrease and leaves the bit rate at 150000,
  below the TFRC rate of 226013 for that loss and round-trip time.
\<close>

theorem decrease_below_tfrc_counterexample:
  "bitrate
     (run (\<lambda>x. 0)
        [CallSetMinMaxBitrate 50000 1000000, CallSetSendBitrate 1000000,
         CallUpdateReceiverEstimate 150000, CallUpdateReceiverBlock 30 50 25 1000]
        (Constructor :: 32 estimation)) = 150000 \<and>
   time_last_decrease
     (run (\<lambda>x. 0)
        [CallSetMinMaxBitrate 50000 1000000, CallSetSendBitrate 1000000,
         CallUpdateReceiverEstimate 150000, CallUpdateReceiverBlock 30 50 25 1000]
        (Constructor :: 32 estimation)) = 1000 \<and>
   last_fraction_loss
     (run (\<lambda>x. 0)
        [CallSetMinMaxBitrate 50000 1000000, CallSetSendBitrate 1000000,
         CallUpdateReceiverEstimate 150000, CallUpdateReceiverBlock 30 50 25 1000]
        (Constructor :: 32 estimation)) = 30 \<and>
   last_round_trip_time
     (run (\<lambda>x. 0)
        [CallSetMinMaxBitrate 50000 1000000, CallSetSendBitrate 1000000,
         CallUpdateReceiverEstimate 150000, CallUpdateReceiverBlock 30 50 25 1000]
        (Constructor :: 32 estimation)) = 50 \<and>
   CalcTfrcBps (\<lambda>x. 0) 50 30 = 226013 \<and>
   (150000 :: 32 word) < 226013"
proof -
  let ?s0 = "\<lparr>accumulate_lost_packets_Q8 = 0, accumulate_expected_packets = 0,
      bitrate = 150000, min_bitrate_configured = 50000, max_bitrate_configured = 1000000,
      last_fraction_loss = 0, last_round_trip_time = 0 :: 32 word, bwe_incoming = 150000,
      time_last_increase = 0, time_last_decrease = 0, warnings = []\<rparr>"
  let ?s1 = "?s0\<lparr>last_round_trip_time := 50, last_fraction_loss := 30\<rparr>"
  have s0: "run (\<lambda>x. 0)
        [CallSetMinMaxBitrate 50000 1000000, CallSetSendBitrate 1000000,
         CallUpdateReceiverEstimate 150000] (Constructor :: 32 estimation) = ?s0"
    by (simp add: Constructor_def SetMinMaxBitrate_def SetSendBitrate_def
        UpdateReceiverEstimate_def Cap_eq Let_def)
  have n: "(0::int) < 25" and c: "20 \<le> accumulate_expected_packets ?s0 + 25" by simp_all
  have q: "(0 + uint (30 :: 8 word) * 25) sdiv (0 + 25) = 30"
    by (simp add: signed_divide_int_def)
  have s1: "UpdateReceiverBlock (\<lambda>x. 0) 30 50 25 1000 ?s0 = UpdateEstimate (\<lambda>x. 0) 1000 ?s1"
    unfolding URB_commit [OF n c] by (simp add: q)
  have h1: "26 < last_fraction_loss ?s1" by simp
  have h2: "300 + ucast (last_round_trip_time ?s1) \<le> 1000 - time_last_decrease ?s1" by simp
  have s2: "UpdateEstimate (\<lambda>x. 0) 1000 ?s1 =
      ?s1\<lparr>time_last_decrease := 1000, bitrate := 150000\<rparr>"
    unfolding UpdateEstimate_decrease [OF h1 h2]
    by (simp add: CalcTfrcBps_50_30 Cap_eq Let_def)
  have r: "run (\<lambda>x. 0)
        [CallSetMinMaxBitrate 50000 1000000, CallSetSendBitrate 1000000,
         CallUpdateReceiverEstimate 150000, CallUpdateReceiverBlock 30 50 25 1000]
        (Constructor :: 32 estimation) = ?s1\<lparr>time_last_decrease := 1000, bitrate := 150000\<rparr>"
    using s0 s1 s2 by simp
  show ?thesis unfolding r by (simp add: CalcTfrcBps_50_30)
qed

text \<open>
  Claim C3, amended. When the committed loss is above 26 and the unsigned 32-bit
  difference \<open>now_ms - time_last_decrease\<close> is at least \<open>300 + last_round_trip_time\<close>,
  the bit rate becomes the maximum \<open>floored\<close> of \<open>bitrate * (512 - loss) div 512\<close> and
  the TFRC rate of the stored round-trip time and loss; it is then clamped, that is
  capped to a positive receiver estimate and to the configured maximum and then raised to
  the configured minimum, with a warning when the raise applies; \<open>time_last_decrease\<close>
  becomes \<open>now_ms\<close> and no other field changes. The floored rate is never below the TFRC
  rate. The clamped rate is at least the TFRC rate exactly when the TFRC rate is at most
  the configured minimum, or at most the configured maximum and at most a positive
  receiver estimate.
\<close>

theorem decrease_step:
  assumes "26 < last_fraction_loss s"
    and "300 + ucast (last_round_trip_time s) \<le> now_ms - time_last_decrease s"
    and "tfrc = CalcTfrcBps oor (ucast (last_round_trip_time s)) (last_fraction_loss s)"
    and "reduced = unat (bitrate s) * (512 - unat (last_fraction_loss s)) div 512"
    and "floored = max (word_of_nat reduced) tfrc"
    and "capped = min (max_bitrate_configured s)
                    (if 0 < bwe_incoming s then min floored (bwe_incoming s) else floored)"
  shows "UpdateEstimate oor now_ms s =
           s\<lparr>time_last_decrease := now_ms,
              bitrate := max (min_bitrate_configured s) capped,
              warnings :=
                (if capped < min_bitrate_configured s
                 then warnings s @ [(min_bitrate_configured s div 1000, capped div 1000)]
                 else warnings s)\<rparr> \<and>
         UpdateEstimate oor now_ms s =
           CapBitrateToThresholds (s\<lparr>time_last_decrease := now_ms, bitrate := floored\<rparr>) \<and>
         bitrate (UpdateEstimate oor now_ms s) = max (min_bitrate_configured s) capped \<and>
         time_last_decrease (UpdateEstimate oor now_ms s) = now_ms \<and>
         unat (word_of_nat reduced :: 32 word) = reduced \<and>
         tfrc \<le> floored \<and>
         (tfrc \<le> bitrate (UpdateEstimate oor now_ms s) \<longleftrightarrow>
            tfrc \<le> min_bitrate_configured s \<or>
            (tfrc \<le> max_bitrate_configured s \<and>
             (bwe_incoming s = 0 \<or> tfrc \<le> bwe_incoming s)))"
proof -
  have u: "UpdateEstimate oor now_ms s =
           CapBitrateToThresholds (s\<lparr>time_last_decrease := now_ms, bitrate := floored\<rparr>)"
    unfolding assms(3,4,5) by (rule UpdateEstimate_decrease [OF assms(1,2)])
  have e: "UpdateEstimate oor now_ms s =
           s\<lparr>time_last_decrease := now_ms,
              bitrate := max (min_bitrate_configured s) capped,
              warnings :=
                (if capped < min_bitrate_configured s
                 then warnings s @ [(min_bitrate_configured s div 1000, capped div 1000)]
                 else warnings s)\<rparr>"
    unfolding u assms(6) by (simp add: Cap_eq Let_def)
  have b: "bitrate (UpdateEstimate oor now_ms s) = max (min_bitrate_configured s) capped"
    and t: "time_last_decrease (UpdateEstimate oor now_ms s) = now_ms"
    by (simp_all add: e)
  have "unat (bitrate s) * (512 - unat (last_fraction_loss s)) \<le> unat (bitrate s) * 512"
    by (intro mult_le_mono2) simp
  then have "unat (bitrate s) * (512 - unat (last_fraction_loss s)) div 512
      \<le> unat (bitrate s) * 512 div 512" by (rule div_le_mono)
  then have "reduced \<le> unat (bitrate s)" unfolding assms(4) by simp
  moreover have "unat (bitrate s) < 2 ^ 32" using unsigned_less [of "bitrate s"] by simp
  ultimately have r: "unat (word_of_nat reduced :: 32 word) = reduced"
    by (simp add: unat_of_nat)
  have f: "tfrc \<le> floored" unfolding assms(5) by simp
  have i: "tfrc \<le> bitrate (UpdateEstimate oor now_ms s) \<longleftrightarrow>
            tfrc \<le> min_bitrate_configured s \<or>
            (tfrc \<le> max_bitrate_configured s \<and>
             (bwe_incoming s = 0 \<or> tfrc \<le> bwe_incoming s))"
    unfolding b assms(6) by (rule tfrc_le_clamped [OF f])
  from e u b t r f i show ?thesis by blast
qed

theorem decrease_step_witness:
  "bitrate
     (UpdateEstimate (\<lambda>x. 0) 1000
        ((SetMinMaxBitrate 50000 1000000 (SetSendBitrate 100000 (Constructor :: 32 estimation)))
           \<lparr>last_fraction_loss := 30, last_round_trip_time := 50\<rparr>)) = 226013 \<and>
   time_last_decrease
     (UpdateEstimate (\<lambda>x. 0) 1000
        ((SetMinMaxBitrate 50000 1000000 (SetSendBitrate 100000 (Constructor :: 32 estimation)))
           \<lparr>last_fraction_loss := 30, last_round_trip_time := 50\<rparr>)) = 1000 \<and>
   CalcTfrcBps (\<lambda>x. 0) 50 30 = 226013 \<and>
   (100000 * (512 - 30)) div 512 = (94140 :: nat)"
proof -
  let ?s = "(SetMinMaxBitrate 50000 1000000 (SetSendBitrate 100000 (Constructor :: 32 estimation)))
        \<lparr>last_fraction_loss := 30, last_round_trip_time := 50\<rparr>"
  have h1: "26 < last_fraction_loss ?s" by (simp add: configured_state)
  have h2: "300 + ucast (last_round_trip_time ?s) \<le> 1000 - time_last_decrease ?s"
    by (simp add: configured_state)
  note A = decrease_step [OF h1 h2 refl refl refl refl, of "\<lambda>x. 0"]
  have "bitrate (UpdateEstimate (\<lambda>x. 0) 1000 ?s) = 226013"
    unfolding A [THEN conjunct2, THEN conjunct2, THEN conjunct1]
    by (simp add: configured_state CalcTfrcBps_50_30)
  moreover have "time_last_decrease (UpdateEstimate (\<lambda>x. 0) 1000 ?s) = 1000"
    using A by blast
  ultimately show ?thesis by (simp add: CalcTfrcBps_50_30)
qed

text \<open>
  Claim C9. \<^verbatim>\<open>CalcTfrcBps\<close> takes a \<^verbatim>\<open>uint16_t\<close>, so it receives the stored
  round-trip time modulo 65536. When the stored time is a positive multiple of 65536 and
  the loss is above 26, the floor computed in a decrease is 0 and the bit rate is set to
  \<open>bitrate * (512 - loss) div 512\<close>, although round-trip time and loss are not zero.
\<close>

theorem tfrc_rtt_truncated:
  assumes "26 < last_fraction_loss s"
    and "300 + ucast (last_round_trip_time s) \<le> now_ms - time_last_decrease s"
    and "last_round_trip_time s \<noteq> 0"
    and "2 ^ 16 dvd unat (last_round_trip_time s)"
  shows "unat (ucast (last_round_trip_time s) :: 16 word) = unat (last_round_trip_time s) mod 2 ^ 16 \<and>
         CalcTfrcBps oor (ucast (last_round_trip_time s)) (last_fraction_loss s) = 0 \<and>
         UpdateEstimate oor now_ms s =
           CapBitrateToThresholds
             (s\<lparr>time_last_decrease := now_ms,
                 bitrate :=
                   word_of_nat
                     (unat (bitrate s) * (512 - unat (last_fraction_loss s)) div 512)\<rparr>)"
proof -
  have "unat (ucast (last_round_trip_time s) :: 16 word) = unat (last_round_trip_time s) mod 2 ^ 16"
    by (simp add: unsigned_ucast_eq take_bit_eq_mod)
  moreover have z: "(ucast (last_round_trip_time s) :: 16 word) = 0"
    by (rule ucast_16_eq_0 [OF assms(4)])
  ultimately show ?thesis
    by (simp add: UpdateEstimate_decrease [OF assms(1,2)] z)
qed

theorem tfrc_rtt_truncated_witness:
  "bitrate
     (UpdateEstimate (\<lambda>x. 0) 100000
        ((SetMinMaxBitrate 50000 1000000 (SetSendBitrate 300000 (Constructor :: 32 estimation)))
           \<lparr>last_fraction_loss := 200, last_round_trip_time := 65536\<rparr>)) = 182812"
proof -
  let ?s = "(SetMinMaxBitrate 50000 1000000 (SetSendBitrate 300000 (Constructor :: 32 estimation)))
           \<lparr>last_fraction_loss := 200, last_round_trip_time := 65536\<rparr>"
  have s: "?s = \<lparr>accumulate_lost_packets_Q8 = 0, accumulate_expected_packets = 0,
      bitrate = 300000, min_bitrate_configured = 50000, max_bitrate_configured = 1000000,
      last_fraction_loss = 200, last_round_trip_time = 65536, bwe_incoming = 0,
      time_last_increase = 0, time_last_decrease = 0, warnings = []\<rparr>"
    by (simp add: SetMinMaxBitrate_def SetSendBitrate_def Constructor_def)
  have h1: "26 < last_fraction_loss ?s" by (simp add: s)
  have h2: "300 + ucast (last_round_trip_time ?s) \<le> 100000 - time_last_decrease ?s"
    by (simp add: s)
  have h3: "last_round_trip_time ?s \<noteq> 0" by (simp add: s)
  have h4: "2 ^ 16 dvd unat (last_round_trip_time ?s)" by (simp add: s)
  show ?thesis
    using tfrc_rtt_truncated [OF h1 h2 h3 h4, of "\<lambda>x. 0"]
    by (simp add: s Cap_eq Let_def)
qed

text \<open>
  Claim C4 says that a triggered increase sets the bit rate to the rounded
  \<open>bitrate * 1.08\<close> plus 1000. The sum is one of \<^verbatim>\<open>uint32_t\<close>: from 3976821000 the
  rounded product is 4294966680, and adding 1000 wraps around to 384, not to the
  4294967680 of the claim.
\<close>

theorem increase_wraps_counterexample:
  "last_fraction_loss
     (SetMinMaxBitrate 0 4294967295 (SetSendBitrate 3976821000 (Constructor :: 32 estimation)))
     \<le> 5 \<and>
   1000 \<le> 1000 - time_last_increase
     (SetMinMaxBitrate 0 4294967295 (SetSendBitrate 3976821000 (Constructor :: 32 estimation))) \<and>
   bitrate (UpdateEstimate (\<lambda>x. 0) 1000
     (SetMinMaxBitrate 0 4294967295 (SetSendBitrate 3976821000 (Constructor :: 32 estimation))))
     = 384 \<and>
   (108 * 3976821000 + 50) div 100 + 1000 = (4294967680 :: nat)"
proof -
  let ?s = "SetMinMaxBitrate 0 4294967295 (SetSendBitrate 3976821000 (Constructor :: 32 estimation))"
  have s: "?s = \<lparr>accumulate_lost_packets_Q8 = 0, accumulate_expected_packets = 0,
      bitrate = 3976821000, min_bitrate_configured = 0, max_bitrate_configured = 4294967295,
      last_fraction_loss = 0, last_round_trip_time = 0, bwe_incoming = 0,
      time_last_increase = 0, time_last_decrease = 0, warnings = []\<rparr>"
    by (simp add: SetMinMaxBitrate_def SetSendBitrate_def Constructor_def)
  have h1: "last_fraction_loss ?s \<le> 5" by (simp add: s)
  have h2: "1000 \<le> 1000 - time_last_increase ?s" by (simp add: s)
  have "(108 * unat (3976821000 :: 32 word) + 50) div 100 < 2 ^ 32" by simp
  from increase_rate_exact [OF this, of "\<lambda>x. 0"]
  have i: "increase_rate (\<lambda>x. 0) 3976821000 = 384" by simp
  have "bitrate (UpdateEstimate (\<lambda>x. 0) 1000 ?s) = 384"
    unfolding UpdateEstimate_increase [OF h1 h2] by (simp add: s i Cap_eq Let_def)
  then show ?thesis using h1 h2 by simp
qed

text \<open>
  Claim C4, amended. The increased rate is \<open>(108 * bitrate + 50) div 100 + 1000\<close>, the
  rounded \<open>bitrate * 1.08\<close> plus 1000, whenever this number is below \<open>2 ^ 32\<close>. With a
  committed loss of at most 5 and an unsigned difference \<open>now_ms - time_last_increase\<close>
  of at least 1000, \<^verbatim>\<open>UpdateEstimate\<close> stores the increased rate and \<open>now_ms\<close> and then
  clamps. With the loss fixed at 0: when a first report at \<open>t1\<close> triggers an increase, a
  second report at \<open>t2\<close> leaves bit rate and \<open>time_last_increase\<close> as they are if
  \<open>t2 - t1 < 1000\<close>, and increases again if \<open>t2 - t1 \<ge> 1000\<close>.
\<close>

theorem increase_step:
  assumes "accumulate_lost_packets_Q8 s = 0" and "0 < n1"
    and "20 \<le> accumulate_expected_packets s + n1" and "20 \<le> n2"
    and "1000 \<le> t1 - time_last_increase s"
    and "s1 = UpdateReceiverBlock oor 0 rtt1 n1 t1 s"
    and "s2 = UpdateReceiverBlock oor 0 rtt2 n2 t2 s1"
  shows
    "((108 * unat b + 50) div 100 + 1000 < 2 ^ 32 \<longrightarrow>
        unat (increase_rate oor b) = (108 * unat b + 50) div 100 + 1000) \<and>
     (last_fraction_loss s' \<le> 5 \<and> 1000 \<le> now_ms - time_last_increase s' \<longrightarrow>
        UpdateEstimate oor now_ms s' =
          CapBitrateToThresholds
            (s'\<lparr>time_last_increase := now_ms, bitrate := increase_rate oor (bitrate s')\<rparr>)) \<and>
     time_last_increase s1 = t1 \<and>
     bitrate s1 = bitrate (CapBitrateToThresholds (s\<lparr>bitrate := increase_rate oor (bitrate s)\<rparr>)) \<and>
     (t2 - t1 < 1000 \<longrightarrow> time_last_increase s2 = t1 \<and> bitrate s2 = bitrate s1) \<and>
     (1000 \<le> t2 - t1 \<longrightarrow>
        time_last_increase s2 = t2 \<and>
        bitrate s2 =
          bitrate (CapBitrateToThresholds (s1\<lparr>bitrate := increase_rate oor (bitrate s1)\<rparr>)))"
proof -
  have f: "unat (increase_rate oor b) = (108 * unat b + 50) div 100 + 1000"
    if "(108 * unat b + 50) div 100 + 1000 < 2 ^ 32"
  proof -
    have "(108 * unat b + 50) div 100 < 2 ^ 32" using that by simp
    define N where "N = (108 * unat b + 50) div 100 + 1000"
    from increase_rate_exact [OF \<open>(108 * unat b + 50) div 100 < 2 ^ 32\<close>, of oor]
    have "increase_rate oor b = word_of_nat N" by (simp add: N_def)
    then have "unat (increase_rate oor b) = N mod 2 ^ LENGTH(32)" by (simp only: unat_of_nat)
    moreover have "N < 2 ^ 32" using that by (simp add: N_def)
    ultimately show ?thesis by (simp add: N_def)
  qed
  define a where "a = s\<lparr>last_round_trip_time := ucast rtt1, last_fraction_loss := 0,
          accumulate_lost_packets_Q8 := 0, accumulate_expected_packets := 0\<rparr>"
  have "s1 = UpdateEstimate oor t1 a"
    unfolding assms(6) a_def by (rule URB_zero_loss [OF assms(1,2,3)])
  also have "\<dots> = CapBitrateToThresholds
      (a\<lparr>time_last_increase := t1, bitrate := increase_rate oor (bitrate a)\<rparr>)"
    using assms(5) by (intro UpdateEstimate_increase) (simp_all add: a_def)
  finally have s1: "s1 = CapBitrateToThresholds
      (a\<lparr>time_last_increase := t1, bitrate := increase_rate oor (bitrate a)\<rparr>)" .
  have w1: "within_thresholds s1" unfolding s1 by (rule Cap_within)
  have t: "time_last_increase s1 = t1" by (simp add: s1)
  have b1: "bitrate s1 =
      bitrate (CapBitrateToThresholds (s\<lparr>bitrate := increase_rate oor (bitrate s)\<rparr>))"
    by (simp add: s1 a_def Cap_eq Let_def)
  have acc: "accumulate_lost_packets_Q8 s1 = 0" "accumulate_expected_packets s1 = 0"
    by (simp_all add: s1 a_def)
  define c where "c = s1\<lparr>last_round_trip_time := ucast rtt2, last_fraction_loss := 0,
          accumulate_lost_packets_Q8 := 0, accumulate_expected_packets := 0\<rparr>"
  have s2: "s2 = UpdateEstimate oor t2 c"
    unfolding assms(7) c_def using assms(4) acc by (intro URB_zero_loss) simp_all
  have wc: "within_thresholds c" using w1 by (simp add: c_def within_thresholds_def)
  have one: "time_last_increase s2 = t1 \<and> bitrate s2 = bitrate s1" if "t2 - t1 < 1000"
  proof -
    have "s2 = CapBitrateToThresholds c"
      unfolding s2 using that t by (intro UpdateEstimate_no_increase) (simp_all add: c_def)
    then show ?thesis using Cap_within_bitrate [OF wc] t by (simp add: c_def)
  qed
  have two: "time_last_increase s2 = t2 \<and>
        bitrate s2 =
          bitrate (CapBitrateToThresholds (s1\<lparr>bitrate := increase_rate oor (bitrate s1)\<rparr>))"
    if "1000 \<le> t2 - t1"
  proof -
    have "s2 = CapBitrateToThresholds
        (c\<lparr>time_last_increase := t2, bitrate := increase_rate oor (bitrate c)\<rparr>)"
      unfolding s2 using that t by (intro UpdateEstimate_increase) (simp_all add: c_def)
    then show ?thesis by (simp add: c_def Cap_eq Let_def)
  qed
  show ?thesis
    using f t b1 one two by (auto simp: UpdateEstimate_increase)
qed

theorem increase_step_witness:
  "bitrate (UpdateReceiverBlock (\<lambda>x. 0) 0 50 25 1000
      (SetMinMaxBitrate 50000 1000000 (SetSendBitrate 300000 (Constructor :: 32 estimation))))
     = 325000 \<and>
   bitrate (UpdateReceiverBlock (\<lambda>x. 0) 0 50 25 1500
      (UpdateReceiverBlock (\<lambda>x. 0) 0 50 25 1000
         (SetMinMaxBitrate 50000 1000000 (SetSendBitrate 300000 (Constructor :: 32 estimation)))))
     = 325000 \<and>
   bitrate (UpdateReceiverBlock (\<lambda>x. 0) 0 50 25 2000
      (UpdateReceiverBlock (\<lambda>x. 0) 0 50 25 1000
         (SetMinMaxBitrate 50000 1000000 (SetSendBitrate 300000 (Constructor :: 32 estimation)))))
     = 352000"
proof -
  let ?s = "SetMinMaxBitrate 50000 1000000 (SetSendBitrate 300000 (Constructor :: 32 estimation))"
  have h1: "accumulate_lost_packets_Q8 ?s = 0" by (simp add: configured_state)
  have h2: "(0::int) < 25" by simp
  have h3: "20 \<le> accumulate_expected_packets ?s + 25" by (simp add: configured_state)
  have h4: "(20::int) \<le> 25" by simp
  have h5: "1000 \<le> 1000 - time_last_increase ?s" by (simp add: configured_state)
  note A = increase_step [OF h1 h2 h3 h4 h5 refl refl, where oor = "\<lambda>x. 0" and ?rtt1.0 = 50
      and ?rtt2.0 = 50]
  note c4 = A [THEN conjunct2, THEN conjunct2, THEN conjunct2, THEN conjunct1]
  note c5 = A [THEN conjunct2, THEN conjunct2, THEN conjunct2, THEN conjunct2, THEN conjunct1,
      THEN mp, THEN conjunct2]
  note c6 = A [THEN conjunct2, THEN conjunct2, THEN conjunct2, THEN conjunct2, THEN conjunct2,
      THEN mp, THEN conjunct2]
  have "(108 * unat (300000 :: 32 word) + 50) div 100 < 2 ^ 32" by simp
  from increase_rate_exact [OF this, of "\<lambda>x. 0"]
  have i1: "increase_rate (\<lambda>x. 0) 300000 = 325000" by simp
  have "(108 * unat (325000 :: 32 word) + 50) div 100 < 2 ^ 32" by simp
  from increase_rate_exact [OF this, of "\<lambda>x. 0"]
  have i2: "increase_rate (\<lambda>x. 0) 325000 = 352000" by simp
  have b1: "bitrate (UpdateReceiverBlock (\<lambda>x. 0) 0 50 25 1000 ?s) = 325000"
    unfolding c4 by (simp add: configured_state i1 Cap_eq Let_def)
  have m: "min_bitrate_configured (UpdateReceiverBlock (\<lambda>x. 0) 0 50 25 1000 ?s) = 50000"
    "max_bitrate_configured (UpdateReceiverBlock (\<lambda>x. 0) 0 50 25 1000 ?s) = 1000000"
    "bwe_incoming (UpdateReceiverBlock (\<lambda>x. 0) 0 50 25 1000 ?s) = 0"
    by (simp_all add: URB_commit configured_state)
  have "(1500 :: 32 word) - 1000 < 1000" by simp
  from c5 [OF this]
  have b2: "bitrate (UpdateReceiverBlock (\<lambda>x. 0) 0 50 25 1500
      (UpdateReceiverBlock (\<lambda>x. 0) 0 50 25 1000 ?s)) = 325000"
    using b1 by simp
  have "(1000 :: 32 word) \<le> 2000 - 1000" by simp
  from c6 [OF this]
  have b3: "bitrate (UpdateReceiverBlock (\<lambda>x. 0) 0 50 25 2000
      (UpdateReceiverBlock (\<lambda>x. 0) 0 50 25 1000 ?s)) = 352000"
    using b1 m by (simp add: i2 Cap_eq Let_def)
  show ?thesis using b1 b2 b3 by simp
qed

text \<open>
  Claim C8. The two cooldown checks are comparisons of 32-bit words:
  \<open>1000 \<le> now_ms - time_last_increase\<close> and
  \<open>300 + last_round_trip_time \<le> now_ms - time_last_decrease\<close>, where difference and sum
  are taken modulo \<open>2 ^ 32\<close> and nothing else is checked. On an object whose
  \<open>time_last_increase\<close> is still 0, a report that commits a loss of at most 5 at
  \<open>now_ms = 0\<close> only clamps, while one at \<open>now_ms \<ge> 1000\<close> increases the bit rate.
\<close>

theorem cooldown_comparisons:
  "(last_fraction_loss s \<le> 5 \<longrightarrow>
      UpdateEstimate oor now_ms s =
        (if 1000 \<le> now_ms - time_last_increase s
         then CapBitrateToThresholds
                (s\<lparr>time_last_increase := now_ms, bitrate := increase_rate oor (bitrate s)\<rparr>)
         else CapBitrateToThresholds s)) \<and>
   (26 < last_fraction_loss s \<longrightarrow>
      UpdateEstimate oor now_ms s =
        (if 300 + ucast (last_round_trip_time s) \<le> now_ms - time_last_decrease s
         then CapBitrateToThresholds
                (s\<lparr>time_last_decrease := now_ms,
                    bitrate :=
                      max (reduce_rate oor (bitrate s) (last_fraction_loss s))
                        (CalcTfrcBps oor (ucast (last_round_trip_time s))
                           (last_fraction_loss s))\<rparr>)
         else CapBitrateToThresholds s)) \<and>
   unat (now_ms - time_last_increase s) =
     (unat now_ms + 2 ^ 32 - unat (time_last_increase s)) mod 2 ^ 32 \<and>
   unat (now_ms - time_last_decrease s) =
     (unat now_ms + 2 ^ 32 - unat (time_last_decrease s)) mod 2 ^ 32 \<and>
   unat (300 + ucast (last_round_trip_time s) :: 32 word) =
     (300 + unat (last_round_trip_time s)) mod 2 ^ 32 \<and>
   (time_last_increase s = 0 \<and> accumulate_lost_packets_Q8 s = 0 \<and>
    accumulate_expected_packets s = 0 \<and> fraction_loss \<le> 5 \<and> 20 \<le> n \<longrightarrow>
      UpdateReceiverBlock oor fraction_loss rtt n 0 s =
        CapBitrateToThresholds
          (s\<lparr>last_round_trip_time := ucast rtt, last_fraction_loss := fraction_loss\<rparr>) \<and>
      (1000 \<le> t \<longrightarrow>
         UpdateReceiverBlock oor fraction_loss rtt n t s =
           CapBitrateToThresholds
             (s\<lparr>last_round_trip_time := ucast rtt, last_fraction_loss := fraction_loss,
                 time_last_increase := t, bitrate := increase_rate oor (bitrate s)\<rparr>)))"
proof -
  have inc: "UpdateEstimate oor now_ms s =
        (if 1000 \<le> now_ms - time_last_increase s
         then CapBitrateToThresholds
                (s\<lparr>time_last_increase := now_ms, bitrate := increase_rate oor (bitrate s)\<rparr>)
         else CapBitrateToThresholds s)" if "last_fraction_loss s \<le> 5"
    using that by (simp add: UpdateEstimate_def kBweIncreaseIntervalMs_def)
  have dec: "UpdateEstimate oor now_ms s =
        (if 300 + ucast (last_round_trip_time s) \<le> now_ms - time_last_decrease s
         then CapBitrateToThresholds
                (s\<lparr>time_last_decrease := now_ms,
                    bitrate :=
                      max (reduce_rate oor (bitrate s) (last_fraction_loss s))
                        (CalcTfrcBps oor (ucast (last_round_trip_time s))
                           (last_fraction_loss s))\<rparr>)
         else CapBitrateToThresholds s)" if "26 < last_fraction_loss s"
    using loss_above_26 [OF that] by (simp add: UpdateEstimate_def kBweDecreaseIntervalMs_def)
  have init: "UpdateReceiverBlock oor fraction_loss rtt n 0 s =
        CapBitrateToThresholds
          (s\<lparr>last_round_trip_time := ucast rtt, last_fraction_loss := fraction_loss\<rparr>) \<and>
      (1000 \<le> t \<longrightarrow>
         UpdateReceiverBlock oor fraction_loss rtt n t s =
           CapBitrateToThresholds
             (s\<lparr>last_round_trip_time := ucast rtt, last_fraction_loss := fraction_loss,
                 time_last_increase := t, bitrate := increase_rate oor (bitrate s)\<rparr>))"
    if a: "time_last_increase s = 0" "accumulate_lost_packets_Q8 s = 0"
      "accumulate_expected_packets s = 0" "fraction_loss \<le> 5" "20 \<le> n"
  proof -
    have n: "0 < n" using a(5) by simp
    have c: "20 \<le> accumulate_expected_packets s + n" using a(3,5) by simp
    have s: "s\<lparr>accumulate_lost_packets_Q8 := 0, accumulate_expected_packets := 0\<rparr> = s"
      using a(2,3) by simp
    have "s\<lparr>last_round_trip_time := ucast rtt, last_fraction_loss := fraction_loss,
          accumulate_lost_packets_Q8 := 0, accumulate_expected_packets := 0\<rparr> =
        (s\<lparr>accumulate_lost_packets_Q8 := 0, accumulate_expected_packets := 0\<rparr>)
          \<lparr>last_round_trip_time := ucast rtt, last_fraction_loss := fraction_loss\<rparr>"
      by simp
    then have r: "s\<lparr>last_round_trip_time := ucast rtt, last_fraction_loss := fraction_loss,
          accumulate_lost_packets_Q8 := 0, accumulate_expected_packets := 0\<rparr> =
        s\<lparr>last_round_trip_time := ucast rtt, last_fraction_loss := fraction_loss\<rparr>"
      by (simp only: s)
    have u: "UpdateReceiverBlock oor fraction_loss rtt n x s =
        UpdateEstimate oor x
          (s\<lparr>last_round_trip_time := ucast rtt, last_fraction_loss := fraction_loss\<rparr>)" for x
      unfolding URB_commit [OF n c] a(2,3) committed_loss [OF n] r ..
    show ?thesis
      unfolding u using a(1,4)
      by (simp add: UpdateEstimate_def kBweIncreaseIntervalMs_def)
  qed
  show ?thesis
    using inc dec init
    by (simp only: unat_sub_mod unat_interval_plus_rtt) blast
qed

theorem cooldown_comparisons_witness:
  "UpdateReceiverBlock (\<lambda>x. 0) 0 50 25 0
     (SetMinMaxBitrate 50000 1000000 (SetSendBitrate 300000 (Constructor :: 32 estimation))) =
   (SetMinMaxBitrate 50000 1000000 (SetSendBitrate 300000 (Constructor :: 32 estimation)))
     \<lparr>last_round_trip_time := 50\<rparr> \<and>
   UpdateReceiverBlock (\<lambda>x. 0) 0 50 25 1000
     (SetMinMaxBitrate 50000 1000000 (SetSendBitrate 300000 (Constructor :: 32 estimation))) =
   (SetMinMaxBitrate 50000 1000000 (SetSendBitrate 300000 (Constructor :: 32 estimation)))
     \<lparr>last_round_trip_time := 50, time_last_increase := 1000, bitrate := 325000\<rparr> \<and>
   UpdateEstimate (\<lambda>x. 0) 500
     ((SetMinMaxBitrate 50000 1000000 (SetSendBitrate 300000 (Constructor :: 32 estimation)))
        \<lparr>time_last_increase := 4294966796\<rparr>) =
   (SetMinMaxBitrate 50000 1000000 (SetSendBitrate 300000 (Constructor :: 32 estimation)))
     \<lparr>time_last_increase := 500, bitrate := 325000\<rparr>"
proof -
  let ?s = "SetMinMaxBitrate 50000 1000000 (SetSendBitrate 300000 (Constructor :: 32 estimation))"
  have "(108 * unat (300000 :: 32 word) + 50) div 100 < 2 ^ 32" by simp
  from increase_rate_exact [OF this, of "\<lambda>x. 0"]
  have i1: "increase_rate (\<lambda>x. 0) 300000 = 325000" by simp
  note A = cooldown_comparisons [where oor = "\<lambda>x. 0" and rtt = 50 and t = 1000]
  note c1 = A [THEN conjunct1, THEN mp]
  note c6 = A [THEN conjunct2, THEN conjunct2, THEN conjunct2, THEN conjunct2, THEN conjunct2,
      THEN mp]
  have h: "time_last_increase ?s = 0 \<and> accumulate_lost_packets_Q8 ?s = 0 \<and>
    accumulate_expected_packets ?s = 0 \<and> (0 :: 8 word) \<le> 5 \<and> (20 :: int) \<le> 25"
    by (simp add: configured_state)
  have a: "UpdateReceiverBlock (\<lambda>x. 0) 0 50 25 0 ?s = ?s\<lparr>last_round_trip_time := 50\<rparr>"
    unfolding c6 [OF h, THEN conjunct1]
    by (simp add: configured_state Cap_eq Let_def)
  have "(1000 :: 32 word) \<le> 1000" by simp
  from c6 [OF h, THEN conjunct2, THEN mp, OF this]
  have b: "UpdateReceiverBlock (\<lambda>x. 0) 0 50 25 1000 ?s =
      ?s\<lparr>last_round_trip_time := 50, time_last_increase := 1000, bitrate := 325000\<rparr>"
    by (simp add: configured_state Cap_eq Let_def i1)
  have "last_fraction_loss (?s\<lparr>time_last_increase := 4294966796\<rparr>) \<le> 5"
    by (simp add: configured_state)
  from c1 [OF this, of 500]
  have c: "UpdateEstimate (\<lambda>x. 0) 500 (?s\<lparr>time_last_increase := 4294966796\<rparr>) =
      ?s\<lparr>time_last_increase := 500, bitrate := 325000\<rparr>"
    by (simp add: configured_state Cap_eq Let_def i1)
  show ?thesis using a b c by simp
qed

section \<open>The TFRC floor\<close>

text \<open>
  Claim C7. \<^verbatim>\<open>CalcTfrcBps\<close> returns 0 when its round-trip time or its loss is 0, so
  that a decrease whose round-trip time is 0 stores the multiplicative decrease as it
  is; the function is total, no input makes it fail. For every other input the value it
  returns follows the throughput equation of RFC 3448, section 3.1, with \<open>s = 1000\<close>
  bytes, \<open>b = 1\<close> and \<open>t_RTO = 4 * RTT\<close>, in bits per second (\<open>spec_tfrc_bps\<close>, on real
  numbers): it is the truncation to an integer of a double whose rounding errors add up
  to less than \<open>1 / 10 ^ 5\<close>, so it is above that rate minus \<open>1 + 1 / 10 ^ 5\<close> and at most
  that rate plus \<open>1 / 10 ^ 5\<close>, and the conversion to 32 bits is always in range.
\<close>

theorem tfrc_floor:
  "CalcTfrcBps oor 0 loss = 0 \<and> CalcTfrcBps oor rtt 0 = 0 \<and>
   (26 < last_fraction_loss s \<and>
    300 + ucast (last_round_trip_time s) \<le> now_ms - time_last_decrease s \<and>
    (ucast (last_round_trip_time s) :: 16 word) = 0 \<longrightarrow>
      UpdateEstimate oor now_ms s =
        CapBitrateToThresholds
          (s\<lparr>time_last_decrease := now_ms,
              bitrate :=
                word_of_nat
                  (unat (bitrate s) * (512 - unat (last_fraction_loss s)) div 512)\<rparr>)) \<and>
   (rtt \<noteq> 0 \<and> loss \<noteq> 0 \<longrightarrow>
      spec_tfrc_bps (unat rtt) (unat loss) - 1 - 1 / 10 ^ 5
        < real (unat (CalcTfrcBps oor rtt loss)) \<and>
      real (unat (CalcTfrcBps oor rtt loss))
        \<le> spec_tfrc_bps (unat rtt) (unat loss) + 1 / 10 ^ 5)"
proof -
  have "UpdateEstimate oor now_ms s =
        CapBitrateToThresholds
          (s\<lparr>time_last_decrease := now_ms,
              bitrate :=
                word_of_nat
                  (unat (bitrate s) * (512 - unat (last_fraction_loss s)) div 512)\<rparr>)"
    if "26 < last_fraction_loss s"
      "300 + ucast (last_round_trip_time s) \<le> now_ms - time_last_decrease s"
      "(ucast (last_round_trip_time s) :: 16 word) = 0"
    by (simp add: UpdateEstimate_decrease [OF that(1,2)] that(3))
  then show ?thesis
    using CalcTfrcBps_error [of rtt loss oor] by simp
qed

theorem tfrc_floor_witness:
  "CalcTfrcBps (\<lambda>x. 0) 50 30 = 226013 \<and>
   spec_tfrc_bps 50 30 - 1 - 1 / 10 ^ 5 < 226013 \<and>
   226013 \<le> spec_tfrc_bps 50 30 + 1 / 10 ^ 5 \<and>
   bitrate
     (UpdateEstimate (\<lambda>x. 0) 1000
        ((SetMinMaxBitrate 50000 1000000 (SetSendBitrate 300000 (Constructor :: 32 estimation)))
           \<lparr>last_fraction_loss := 200\<rparr>)) = 182812"
proof -
  let ?s = "(SetMinMaxBitrate 50000 1000000 (SetSendBitrate 300000 (Constructor :: 32 estimation)))
           \<lparr>last_fraction_loss := 200\<rparr>"
  note A = tfrc_floor [where oor = "\<lambda>x. 0" and rtt = 50 and loss = 30 and s = ?s
      and now_ms = 1000]
  note c3 = A [THEN conjunct2, THEN conjunct2, THEN conjunct1, THEN mp]
  note c4 = A [THEN conjunct2, THEN conjunct2, THEN conjunct2, THEN mp]
  have h: "26 < last_fraction_loss ?s \<and>
    300 + ucast (last_round_trip_time ?s) \<le> 1000 - time_last_decrease ?s \<and>
    (ucast (last_round_trip_time ?s) :: 16 word) = 0"
    by (simp add: configured_state)
  have b: "bitrate (UpdateEstimate (\<lambda>x. 0) 1000 ?s) = 182812"
    unfolding c3 [OF h] by (simp add: configured_state Cap_eq Let_def)
  have n: "(50 :: 16 word) \<noteq> 0 \<and> (30 :: 8 word) \<noteq> 0" by simp
  have "spec_tfrc_bps 50 30 - 1 - 1 / 10 ^ 5 < 226013 \<and>
    226013 \<le> spec_tfrc_bps 50 30 + 1 / 10 ^ 5"
    using c4 [OF n] by (simp add: CalcTfrcBps_50_30)
  then show ?thesis using b by (simp add: CalcTfrcBps_50_30)
qed

end
